theory Spec2Isabelle
  imports Main
begin

section \<open>libcsvkit: dialect configuration, parser and writer\<close>

text \<open>
  A shallow embedding of \<^verbatim>\<open>src/parser.c\<close> and \<^verbatim>\<open>src/writer.c\<close>.

  Conventions of the embedding.
  \<^item> A C \<^verbatim>\<open>char\<close> is a \<^typ>\<open>char\<close> (one byte). The \<^verbatim>\<open>int\<close> returned by
    \<^verbatim>\<open>read_char\<close> is a \<^typ>\<open>char option\<close>: \<^term>\<open>None\<close> for \<^verbatim>\<open>EOF\<close>, else the byte read,
    which \<^verbatim>\<open>read_char\<close> casts to \<^verbatim>\<open>unsigned char\<close>. Plain \<^verbatim>\<open>char\<close> is signed, as it is
    for the usual compilers on x86: where the parser compares such an \<^verbatim>\<open>int\<close> with a
    \<^verbatim>\<open>char\<close> of the configuration, both sides are compared as integers (\<open>read_eq\<close>), so a
    byte read never equals a configuration character of 0x80 or above, and \<^verbatim>\<open>EOF\<close> equals
    the configuration character 0xFF. Two \<^verbatim>\<open>char\<close>s are compared as bytes.
  \<^item> A NUL-terminated C string is the list of its characters before the terminator. A
    pointer that may be \<^verbatim>\<open>NULL\<close> is an \<^typ>\<open>'a option\<close>.
  \<^item> A character source (the in-memory buffer with its position, or a stream) is the list
    of the bytes not yet read; a sink is the list of the bytes written so far.
  \<^item> \<^verbatim>\<open>malloc\<close>, \<^verbatim>\<open>calloc\<close>, \<^verbatim>\<open>realloc\<close> and the writes to a sink succeed, so the
    \<^verbatim>\<open>CSVKIT_ERROR_MEMORY\<close> and \<^verbatim>\<open>CSVKIT_ERROR_IO\<close> returns of the row functions are
    not taken; \<^verbatim>\<open>size_t\<close> counters are natural numbers.
  \<^item> A return code other than \<^verbatim>\<open>CSVKIT_OK\<close> is \<^term>\<open>Inl\<close> of the code; \<^verbatim>\<open>CSVKIT_OK\<close>
    is \<^term>\<open>Inr\<close> of what the call produced.
\<close>

subsection \<open>Data model (\<^verbatim>\<open>include/csvkit.h\<close>)\<close>

record csvkit_config =
  delimiter :: char
  quote_char :: char
  escape_char :: char
  trim_whitespace :: bool
  skip_empty_rows :: bool
  strict_mode :: bool

record csvkit_row =
  row_fields :: "string list"
  row_number :: nat

datatype csvkit_error =
  CSVKIT_ERROR_MEMORY
| CSVKIT_ERROR_IO
| CSVKIT_ERROR_PARSE
| CSVKIT_ERROR_INVALID_ARG
| CSVKIT_ERROR_EOF

datatype source_type = SOURCE_NONE | SOURCE_FILE | SOURCE_STREAM | SOURCE_STRING

text \<open>
  The member \<^verbatim>\<open>fields\<close> of a row, with its \<^verbatim>\<open>field_count\<close>, is the list \<open>row_fields\<close>.

  The parser handle. \<open>source\<close> stands for \<^verbatim>\<open>file\<close>, or for \<^verbatim>\<open>string_data\<close> from
  \<^verbatim>\<open>string_pos\<close> up to \<^verbatim>\<open>string_len\<close>: the bytes still to be read. The member
  \<^verbatim>\<open>row_number\<close> of the parser is \<open>parser_row_number\<close>.
\<close>

record csvkit_parser =
  config :: csvkit_config
  source_type :: source_type
  source :: string
  parser_row_number :: nat
  error_msg :: "string option"
  expected_field_count :: nat

text \<open>
  The writer handle, its members \<^verbatim>\<open>config\<close>, \<^verbatim>\<open>file\<close> and \<^verbatim>\<open>error_msg\<close> prefixed with
  \<open>w\<close>: \<open>wfile\<close> is \<^term>\<open>None\<close> while no sink is bound, else the bytes written so far.
\<close>

record csvkit_writer =
  wconfig :: csvkit_config
  wfile :: "string option"
  owns_file :: bool
  werror_msg :: "string option"

abbreviation LF :: char where "LF \<equiv> CHR 0x0A"
abbreviation CR :: char where "CR \<equiv> CHR 0x0D"
abbreviation NUL :: char where "NUL \<equiv> CHR 0x00"
abbreviation DQUOTE :: char where "DQUOTE \<equiv> CHR 0x22"

subsection \<open>Configuration\<close>

definition csvkit_config_default :: csvkit_config where
  "csvkit_config_default =
     \<lparr>delimiter = CHR '','', quote_char = DQUOTE, escape_char = DQUOTE,
      trim_whitespace = False, skip_empty_rows = False, strict_mode = False\<rparr>"

text \<open>\<^verbatim>\<open>validate_config\<close> of \<^verbatim>\<open>parser.c\<close>, check by check.\<close>

definition parser_validate_config :: "csvkit_config option \<Rightarrow> bool" where
  "parser_validate_config cp =
     (case cp of
        None \<Rightarrow> False
      | Some cfg \<Rightarrow>
          if delimiter cfg = LF \<or> delimiter cfg = CR then False
          else if escape_char cfg = quote_char cfg \<and> delimiter cfg = quote_char cfg then False
          else if delimiter cfg = quote_char cfg then False
          else if quote_char cfg = LF \<or> quote_char cfg = CR then False
          else if escape_char cfg = LF \<or> escape_char cfg = CR then False
          else True)"

text \<open>\<^verbatim>\<open>validate_config\<close> of \<^verbatim>\<open>writer.c\<close>.\<close>

definition writer_validate_config :: "csvkit_config option \<Rightarrow> bool" where
  "writer_validate_config cp =
     (case cp of
        None \<Rightarrow> False
      | Some cfg \<Rightarrow>
          if delimiter cfg = LF \<or> delimiter cfg = CR then False
          else if delimiter cfg = quote_char cfg then False
          else if quote_char cfg = LF \<or> quote_char cfg = CR then False
          else if escape_char cfg = LF \<or> escape_char cfg = CR then False
          else True)"

definition csvkit_parser_new_with_config :: "csvkit_config option \<Rightarrow> csvkit_parser option" where
  "csvkit_parser_new_with_config cp =
     (case cp of
        None \<Rightarrow> None
      | Some cfg \<Rightarrow>
          if \<not> parser_validate_config cp then None
          else Some \<lparr>config = cfg, source_type = SOURCE_NONE, source = [],
                     parser_row_number = 0, error_msg = None, expected_field_count = 0\<rparr>)"

definition csvkit_parser_new :: "csvkit_parser option" where
  "csvkit_parser_new = csvkit_parser_new_with_config (Some csvkit_config_default)"

definition csvkit_writer_new_with_config :: "csvkit_config option \<Rightarrow> csvkit_writer option" where
  "csvkit_writer_new_with_config cp =
     (case cp of
        None \<Rightarrow> None
      | Some cfg \<Rightarrow>
          if \<not> writer_validate_config cp then None
          else Some \<lparr>wconfig = cfg, wfile = None, owns_file = False, werror_msg = None\<rparr>)"

definition csvkit_writer_new :: "csvkit_writer option" where
  "csvkit_writer_new = csvkit_writer_new_with_config (Some csvkit_config_default)"

subsection \<open>Row accessors\<close>

text \<open>
  The array \<^verbatim>\<open>fields\<close> with its \<^verbatim>\<open>field_count\<close> is the list \<^term>\<open>row_fields r\<close>; an index is
  inside the array exactly when it is below the length of the list.
\<close>

definition csvkit_row_field_count :: "csvkit_row option \<Rightarrow> nat" where
  "csvkit_row_field_count rp = (case rp of None \<Rightarrow> 0 | Some r \<Rightarrow> length (row_fields r))"

definition csvkit_row_get_field :: "csvkit_row option \<Rightarrow> nat \<Rightarrow> string option" where
  "csvkit_row_get_field rp index =
     (case rp of
        None \<Rightarrow> None
      | Some r \<Rightarrow> if index \<ge> length (row_fields r) then None else Some (row_fields r ! index))"

fun all_fields_empty :: "string list \<Rightarrow> bool" where
  "all_fields_empty [] = True"
| "all_fields_empty (f # fs) = (if f \<noteq> [] then False else all_fields_empty fs)"

definition csvkit_row_is_empty :: "csvkit_row option \<Rightarrow> bool" where
  "csvkit_row_is_empty rp =
     (case rp of
        None \<Rightarrow> True
      | Some r \<Rightarrow> if length (row_fields r) = 0 then True else all_fields_empty (row_fields r))"

subsection \<open>Writer (\<^verbatim>\<open>writer.c\<close>)\<close>

fun needs_quoting :: "string option \<Rightarrow> char \<Rightarrow> char \<Rightarrow> bool" where
  "needs_quoting None d q = False"
| "needs_quoting (Some []) d q = False"
| "needs_quoting (Some (c # cs)) d q =
     (if c = d \<or> c = q \<or> c = LF \<or> c = CR then True else needs_quoting (Some cs) d q)"

text \<open>\<^verbatim>\<open>fputc\<close> and \<^verbatim>\<open>fputs\<close> on a sink that accepts every write.\<close>

definition fputc :: "char \<Rightarrow> string \<Rightarrow> string" where
  "fputc c out = out @ [c]"

definition fputs :: "string \<Rightarrow> string \<Rightarrow> string" where
  "fputs s out = out @ s"

text \<open>The loop over the characters of a quoted field.\<close>

fun write_quoted_chars :: "csvkit_config \<Rightarrow> string \<Rightarrow> string \<Rightarrow> string" where
  "write_quoted_chars cfg [] out = out"
| "write_quoted_chars cfg (c # cs) out =
     (if c = quote_char cfg
      then write_quoted_chars cfg cs (fputc (quote_char cfg) (fputc (escape_char cfg) out))
      else write_quoted_chars cfg cs (fputc c out))"

text \<open>The loop over the fields, from index \<open>i\<close> on; \<open>fps\<close> are the entries not yet written.\<close>

fun write_fields :: "csvkit_config \<Rightarrow> nat \<Rightarrow> string option list \<Rightarrow> string \<Rightarrow> string" where
  "write_fields cfg i [] out = out"
| "write_fields cfg i (fp # fps) out =
     (let out1 = (if i > 0 then fputc (delimiter cfg) out else out);
          field = (case fp of None \<Rightarrow> [] | Some f \<Rightarrow> f);
          out2 = (if needs_quoting (Some field) (delimiter cfg) (quote_char cfg)
                  then fputc (quote_char cfg)
                         (write_quoted_chars cfg field (fputc (quote_char cfg) out1))
                  else fputs field out1)
      in write_fields cfg (i + 1) fps out2)"

text \<open>
  \<^verbatim>\<open>csvkit_writer_write_row\<close>. The array of \<^verbatim>\<open>field_count\<close> field pointers is a list of
  optional strings; \<^term>\<open>None\<close> for the array itself is a null \<^verbatim>\<open>fields\<close> pointer passed
  with a positive \<^verbatim>\<open>field_count\<close> (with a count of zero no entry is read, as for \<^term>\<open>Some []\<close>).
\<close>

definition csvkit_writer_write_row ::
  "csvkit_writer option \<Rightarrow> string option list option \<Rightarrow> csvkit_error + csvkit_writer" where
  "csvkit_writer_write_row wp fieldsp =
     (case wp of
        None \<Rightarrow> Inl CSVKIT_ERROR_INVALID_ARG
      | Some w \<Rightarrow>
          (case wfile w of
             None \<Rightarrow> Inl CSVKIT_ERROR_INVALID_ARG
           | Some out \<Rightarrow>
               (case fieldsp of
                  None \<Rightarrow> Inl CSVKIT_ERROR_INVALID_ARG
                | Some fps \<Rightarrow>
                    Inr (w\<lparr>wfile := Some (fputc LF (write_fields (wconfig w) 0 fps out))\<rparr>))))"

definition csvkit_writer_open_stream :: "csvkit_writer \<Rightarrow> string \<Rightarrow> csvkit_writer" where
  "csvkit_writer_open_stream w stream = w\<lparr>wfile := Some stream, owns_file := False\<rparr>"

text \<open>
  The encoding of a row in the words of the specification: a field is quoted when it
  contains the delimiter, the quote character, a line feed or a carriage return; a quoted
  field is wrapped in quote characters and each quote character inside is preceded by the
  escape character; a null field is the empty string; a delimiter stands before every field
  but the first, and one line feed ends the row.
\<close>

definition field_needs_quotes :: "csvkit_config \<Rightarrow> string \<Rightarrow> bool" where
  "field_needs_quotes cfg f =
     (\<exists>c \<in> set f. c = delimiter cfg \<or> c = quote_char cfg \<or> c = LF \<or> c = CR)"

definition escaped_chars :: "csvkit_config \<Rightarrow> string \<Rightarrow> string" where
  "escaped_chars cfg f =
     concat (map (\<lambda>c. if c = quote_char cfg then [escape_char cfg, quote_char cfg] else [c]) f)"

definition field_text :: "csvkit_config \<Rightarrow> string option \<Rightarrow> string" where
  "field_text cfg fp =
     (let f = (case fp of None \<Rightarrow> [] | Some s \<Rightarrow> s)
      in if field_needs_quotes cfg f
         then [quote_char cfg] @ escaped_chars cfg f @ [quote_char cfg]
         else f)"

fun fields_text :: "csvkit_config \<Rightarrow> string option list \<Rightarrow> string" where
  "fields_text cfg [] = []"
| "fields_text cfg [fp] = field_text cfg fp"
| "fields_text cfg (fp # fps) = field_text cfg fp @ [delimiter cfg] @ fields_text cfg fps"

definition row_text :: "csvkit_config \<Rightarrow> string option list \<Rightarrow> string" where
  "row_text cfg fps = fields_text cfg fps @ [LF]"

subsection \<open>Parser (\<^verbatim>\<open>parser.c\<close>)\<close>

text \<open>
  \<^verbatim>\<open>string_duplicate\<close> copies the \<open>buffer_len\<close> bytes of the buffer and appends the
  terminator; read as a C string, the copy is the buffer up to its first NUL byte.
\<close>

definition string_duplicate :: "string \<Rightarrow> string" where
  "string_duplicate buf = takeWhile (\<lambda>c. c \<noteq> NUL) buf"

text \<open>\<^verbatim>\<open>isspace\<close> of \<^verbatim>\<open>ctype.h\<close> in the C locale.\<close>

definition isspace :: "char \<Rightarrow> bool" where
  "isspace c = (c = CHR 0x20 \<or> c = CHR 0x09 \<or> c = LF \<or> c = CHR 0x0B \<or> c = CHR 0x0C \<or> c = CR)"

text \<open>
  The scan for \<^verbatim>\<open>last_non_space\<close>: \<open>i\<close> is the offset of \<^verbatim>\<open>end\<close> from \<^verbatim>\<open>start\<close>,
  \<open>l\<close> the offset of the last character seen that is no space.
\<close>

fun last_non_space :: "string \<Rightarrow> nat \<Rightarrow> nat \<Rightarrow> nat" where
  "last_non_space [] i l = l"
| "last_non_space (c # cs) i l = last_non_space cs (i + 1) (if \<not> isspace c then i else l)"

definition trim_whitespace_inplace :: "string \<Rightarrow> string" where
  "trim_whitespace_inplace str =
     (if str = [] then str
      else let start = dropWhile isspace str
           in if start = [] then []
              else take (last_non_space start 0 0 + 1) start)"

fun read_char :: "string \<Rightarrow> char option \<times> string" where
  "read_char [] = (None, [])"
| "read_char (c # cs) = (Some c, cs)"

fun unread_char :: "char option \<Rightarrow> string \<Rightarrow> string" where
  "unread_char None src = src"
| "unread_char (Some c) src = c # src"

text \<open>
  The comparison \<^verbatim>\<open>c == k\<close> of an \<^verbatim>\<open>int\<close> \<open>c\<close> that \<^verbatim>\<open>read_char\<close> returned with a plain
  \<^verbatim>\<open>char\<close> \<open>k\<close> of the configuration. \<open>int_of_read\<close> is the value of \<open>c\<close> (\<^verbatim>\<open>EOF\<close> is -1, a byte
  is between 0 and 255), \<open>int_of_char\<close> the value of the signed \<open>k\<close> after its promotion to
  \<^verbatim>\<open>int\<close> (between -128 and 127).
\<close>

definition int_of_read :: "char option \<Rightarrow> int" where
  "int_of_read c = (case c of None \<Rightarrow> - 1 | Some b \<Rightarrow> int (of_char b))"

definition int_of_char :: "char \<Rightarrow> int" where
  "int_of_char k = (if (of_char k :: nat) < 128 then int (of_char k) else int (of_char k) - 256)"

definition read_eq :: "char option \<Rightarrow> char \<Rightarrow> bool" where
  "read_eq c k = (int_of_read c = int_of_char k)"

text \<open>The value appended to the row when a field ends.\<close>

definition field_value :: "csvkit_config \<Rightarrow> bool \<Rightarrow> string \<Rightarrow> string" where
  "field_value cfg field_was_quoted buf =
     (let v = string_duplicate buf
      in if trim_whitespace cfg \<and> \<not> field_was_quoted then trim_whitespace_inplace v else v)"

text \<open>
  The code of \<^verbatim>\<open>parse_row_internal\<close> after its loop; \<open>c\<close> is the last value assigned to
  the variable \<^verbatim>\<open>c\<close>.
\<close>

definition finish_row ::
  "csvkit_config \<Rightarrow> string \<Rightarrow> bool \<Rightarrow> bool \<Rightarrow> bool \<Rightarrow> string list \<Rightarrow> char option
     \<Rightarrow> csvkit_error + string list" where
  "finish_row cfg buf in_quotes field_started field_was_quoted flds c =
     (if c = None \<and> length buf = 0 \<and> length flds = 0 \<and> \<not> field_started
      then Inl CSVKIT_ERROR_EOF
      else if in_quotes then Inl CSVKIT_ERROR_PARSE
      else Inr (flds @ [field_value cfg field_was_quoted buf]))"

text \<open>
  One iteration of the loop of \<^verbatim>\<open>parse_row_internal\<close>, on the character \<open>c0\<close> that
  \<^verbatim>\<open>read_char\<close> returned in the loop condition. The arguments after the configuration are
  the local variables \<^verbatim>\<open>buffer\<close> (its first \<^verbatim>\<open>buffer_len\<close> bytes), \<^verbatim>\<open>in_quotes\<close>,
  \<^verbatim>\<open>field_started\<close>, \<^verbatim>\<open>field_was_quoted\<close> and the fields of the row so far; \<open>src0\<close> is
  the source after \<open>c0\<close>. An iteration ends in one of three ways: it goes on to the next
  iteration with new values of the local variables (\<^verbatim>\<open>continue\<close>, or the end of the loop
  body), it leaves the loop by \<^verbatim>\<open>break\<close> with the local variables as they were and the
  variable \<^verbatim>\<open>c\<close> as given, or it returns an error code. Each carries the source as the
  iteration leaves it. Where the code assigns a configuration character to \<^verbatim>\<open>c\<close> and
  stores \<^verbatim>\<open>c\<close> in the buffer, the byte stored is that character.
\<close>

datatype iteration =
  Continue string bool bool bool "string list" string
| Break char string
| Return csvkit_error string

definition loop_body ::
  "csvkit_config \<Rightarrow> string \<Rightarrow> bool \<Rightarrow> bool \<Rightarrow> bool \<Rightarrow> string list \<Rightarrow> char \<Rightarrow> string
     \<Rightarrow> iteration" where
  "loop_body cfg buf in_quotes field_started field_was_quoted flds c0 src0 =
     (let (c, src) =
        (if \<not> in_quotes \<and> c0 = CR
         then (case read_char src0 of
                 (next, src1) \<Rightarrow>
                   (LF, if next \<noteq> Some LF \<and> next \<noteq> None then unread_char next src1 else src1))
         else (c0, src0))
      in
      if \<not> in_quotes then
        (if read_eq (Some c) (quote_char cfg) \<and> \<not> field_started then
           Continue buf True True True flds src
         else if read_eq (Some c) (delimiter cfg) then
           Continue [] in_quotes False False (flds @ [field_value cfg field_was_quoted buf]) src
         else if c = LF then
           Break c src
         else
           Continue (buf @ [c]) in_quotes True field_was_quoted flds src)
      else
        (if read_eq (Some c) (escape_char cfg) then
           (case read_char src of
              (next, src1) \<Rightarrow>
                if read_eq next (quote_char cfg) then
                  Continue (buf @ [quote_char cfg]) in_quotes True field_was_quoted flds src1
                else if read_eq next (escape_char cfg) then
                  Continue (buf @ [escape_char cfg]) in_quotes True field_was_quoted flds src1
                else
                  (case next of
                     Some n \<Rightarrow>
                       if escape_char cfg = quote_char cfg then
                         (if strict_mode cfg \<and> \<not> read_eq next (delimiter cfg) \<and> n \<noteq> LF
                             \<and> n \<noteq> CR
                          then Return CSVKIT_ERROR_PARSE src1
                          else Continue buf False field_started field_was_quoted flds
                                 (unread_char next src1))
                       else
                         Continue ((buf @ [c]) @ [n]) in_quotes True field_was_quoted flds src1
                   | None \<Rightarrow> Break c src1))
         else if read_eq (Some c) (quote_char cfg) \<and> escape_char cfg \<noteq> quote_char cfg then
           (if strict_mode cfg then
              (case read_char src of
                 (next, src1) \<Rightarrow>
                   if next \<noteq> None \<and> \<not> read_eq next (delimiter cfg) \<and> next \<noteq> Some LF
                      \<and> next \<noteq> Some CR
                   then Return CSVKIT_ERROR_PARSE src1
                   else Continue buf False field_started field_was_quoted flds
                          (unread_char next src1))
            else Continue buf False field_started field_was_quoted flds src)
         else
           Continue (buf @ [c]) in_quotes True field_was_quoted flds src))"

lemma read_char_shorter:
  "read_char s = (n, s') \<Longrightarrow> length s' \<le> length s"
  "read_char s = (n, s') \<Longrightarrow> length (unread_char n s') \<le> length s"
  by (cases s; auto)+

lemma read_eq_Some: "read_eq (Some c) k \<longleftrightarrow> c = k \<and> (of_char k :: nat) < 128"
proof (cases "(of_char k :: nat) < 128")
  case True
  then show ?thesis by (simp add: read_eq_def int_of_read_def int_of_char_def)
next
  case False
  have "int (of_char k) - 256 < 0"
    using nat_of_char_less_256 [of k] by linarith
  moreover have "0 \<le> int (of_char c)" by simp
  ultimately have "int (of_char c) \<noteq> int (of_char k) - 256" by linarith
  with False show ?thesis
    by (simp add: read_eq_def int_of_read_def int_of_char_def)
qed

lemma read_eq_None: "read_eq None k \<longleftrightarrow> k = CHR 0xFF"
proof -
  have eq: "(of_char k :: nat) = 255 \<longleftrightarrow> k = CHR 0xFF"
    using of_char_eq_iff [of k "CHR 0xFF", where ?'a = nat] by simp
  have "int_of_char k = - 1 \<longleftrightarrow> (of_char k :: nat) = 255"
    using nat_of_char_less_256 [of k] by (simp add: int_of_char_def)
  with eq show ?thesis by (simp add: read_eq_def int_of_read_def eq_commute)
qed

lemma loop_body_Continue_shorter:
  "loop_body cfg buf inq st q flds c0 src0 = Continue buf' inq' st' q' flds' src'
     \<Longrightarrow> length src' \<le> length src0"
  unfolding loop_body_def Let_def
  by (auto split: if_splits prod.splits option.splits dest: read_char_shorter)

lemma loop_body_Return_shorter:
  "loop_body cfg buf inq st q flds c0 src0 = Return e src' \<Longrightarrow> length src' \<le> length src0"
  unfolding loop_body_def Let_def
  by (auto split: if_splits prod.splits option.splits dest: read_char_shorter)

lemma loop_body_Break_shorter:
  "loop_body cfg buf inq st q flds c0 src0 = Break c src' \<Longrightarrow> length src' \<le> length src0"
  unfolding loop_body_def Let_def
  by (auto split: if_splits prod.splits option.splits dest: read_char_shorter)

text \<open>
  The loop, run to its end, followed by the code after it. The first equation is
  \<^verbatim>\<open>read_char\<close> returning \<^verbatim>\<open>EOF\<close> in the loop condition. The result is the return value
  of \<^verbatim>\<open>parse_row_internal\<close> (the fields of the row for \<^verbatim>\<open>CSVKIT_OK\<close>) with the source as
  the call leaves it.
\<close>

function parse_loop ::
  "csvkit_config \<Rightarrow> string \<Rightarrow> bool \<Rightarrow> bool \<Rightarrow> bool \<Rightarrow> string list \<Rightarrow> string
     \<Rightarrow> (csvkit_error + string list) \<times> string" where
  "parse_loop cfg buf in_quotes field_started field_was_quoted flds [] =
     (finish_row cfg buf in_quotes field_started field_was_quoted flds None, [])"
| "parse_loop cfg buf in_quotes field_started field_was_quoted flds (c0 # src0) =
     (case loop_body cfg buf in_quotes field_started field_was_quoted flds c0 src0 of
        Continue buf' in_quotes' field_started' field_was_quoted' flds' src \<Rightarrow>
          parse_loop cfg buf' in_quotes' field_started' field_was_quoted' flds' src
      | Break c src \<Rightarrow>
          (finish_row cfg buf in_quotes field_started field_was_quoted flds (Some c), src)
      | Return e src \<Rightarrow> (Inl e, src))"
  by pat_completeness auto
termination
  by (relation "measure (\<lambda>(cfg, buf, inq, st, q, flds, src). length src)")
    (auto simp: less_Suc_eq_le dest: loop_body_Continue_shorter)

declare parse_loop.simps [simp del]

text \<open>\<^verbatim>\<open>parse_row_internal\<close> on the fresh row and buffer that \<^verbatim>\<open>csvkit_read_row\<close> passes.\<close>

definition parse_row_internal ::
  "csvkit_config \<Rightarrow> string \<Rightarrow> (csvkit_error + string list) \<times> string" where
  "parse_row_internal cfg src = parse_loop cfg [] False False False [] src"

lemma parse_loop_shorter:
  "parse_loop cfg buf inq st q flds src = (r, src') \<Longrightarrow> length src' \<le> length src"
proof (induction cfg buf inq st q flds src rule: parse_loop.induct)
  case (1 cfg buf in_quotes field_started field_was_quoted flds)
  then show ?case by (simp add: parse_loop.simps)
next
  case (2 cfg buf in_quotes field_started field_was_quoted flds c0 src0)
  show ?case
  proof (cases "loop_body cfg buf in_quotes field_started field_was_quoted flds c0 src0")
    case (Continue b i s w f src1)
    with "2.prems" have "parse_loop cfg b i s w f src1 = (r, src')"
      by (simp add: parse_loop.simps)
    from "2.IH" [OF Continue this] loop_body_Continue_shorter [OF Continue]
    show ?thesis by simp
  next
    case (Break c src1)
    with "2.prems" have "src' = src1" by (simp add: parse_loop.simps)
    with loop_body_Break_shorter [OF Break] show ?thesis by simp
  next
    case (Return e src1)
    with "2.prems" have "src' = src1" by (simp add: parse_loop.simps)
    with loop_body_Return_shorter [OF Return] show ?thesis by simp
  qed
qed

lemma parse_row_internal_consumes:
  assumes "parse_row_internal cfg src = (Inr flds, src')"
  shows "length src' < length src"
proof (cases src)
  case Nil
  with assms show ?thesis
    by (simp add: parse_row_internal_def parse_loop.simps finish_row_def)
next
  case (Cons c0 src0)
  show ?thesis
  proof (cases "loop_body cfg [] False False False [] c0 src0")
    case (Continue b i s w f src1)
    with assms Cons have "parse_loop cfg b i s w f src1 = (Inr flds, src')"
      by (simp add: parse_row_internal_def parse_loop.simps)
    from parse_loop_shorter [OF this] loop_body_Continue_shorter [OF Continue] Cons
    show ?thesis by simp
  next
    case (Break c src1)
    with assms Cons have "src' = src1" by (simp add: parse_row_internal_def parse_loop.simps)
    with loop_body_Break_shorter [OF Break] Cons show ?thesis by simp
  next
    case (Return e src1)
    with assms Cons show ?thesis by (simp add: parse_row_internal_def parse_loop.simps)
  qed
qed


definition csvkit_close :: "csvkit_parser \<Rightarrow> csvkit_parser" where
  "csvkit_close p = p\<lparr>source_type := SOURCE_NONE, source := []\<rparr>"

text \<open>
  \<^verbatim>\<open>csvkit_open_string\<close> on a parser and the \<^verbatim>\<open>len\<close> bytes at \<^verbatim>\<open>data\<close>, both not null.
\<close>

definition csvkit_open_string :: "csvkit_parser \<Rightarrow> string \<Rightarrow> csvkit_parser" where
  "csvkit_open_string p data =
     (csvkit_close p)\<lparr>source := data, source_type := SOURCE_STRING,
                       parser_row_number := 0, expected_field_count := 0\<rparr>"

text \<open>
  \<^verbatim>\<open>csvkit_read_row\<close> on a parser and an \<^verbatim>\<open>out_row\<close> that are not null. The result is the
  return code, with the row stored in \<^verbatim>\<open>*out_row\<close> for \<^verbatim>\<open>CSVKIT_OK\<close> (for every other
  code \<^verbatim>\<open>*out_row\<close> is null), and the parser as the call leaves it. The jump back to
  \<^verbatim>\<open>read_next_row\<close> is the recursive call.
\<close>

function csvkit_read_row :: "csvkit_parser \<Rightarrow> (csvkit_error + csvkit_row) \<times> csvkit_parser" where
  "csvkit_read_row p =
     (if source_type p = SOURCE_NONE then (Inl CSVKIT_ERROR_INVALID_ARG, p)
      else
        (case parse_row_internal (config p) (source p) of
           (Inl result, src) \<Rightarrow>
             (Inl result,
              p\<lparr>source := src,
                error_msg :=
                  (if result = CSVKIT_ERROR_PARSE then Some ''Unclosed quoted field''
                   else if result = CSVKIT_ERROR_MEMORY then Some ''Out of memory''
                   else error_msg p)\<rparr>)
         | (Inr flds, src) \<Rightarrow>
             (let p1 = p\<lparr>source := src, parser_row_number := parser_row_number p + 1\<rparr>;
                  row = \<lparr>row_fields = flds, row_number = parser_row_number p1\<rparr>
              in if skip_empty_rows (config p1) \<and> csvkit_row_is_empty (Some row) then
                   csvkit_read_row p1
                 else if strict_mode (config p1) then
                   (if expected_field_count p1 = 0 then
                      (Inr row, p1\<lparr>expected_field_count := length flds\<rparr>)
                    else if length flds \<noteq> expected_field_count p1 then
                      (Inl CSVKIT_ERROR_PARSE,
                       p1\<lparr>error_msg := Some ''Field count mismatch in strict mode''\<rparr>)
                    else (Inr row, p1))
                 else (Inr row, p1))))"
  by pat_completeness auto
termination
  by (relation "measure (\<lambda>p. length (source p))")
    (auto dest: parse_row_internal_consumes [OF sym])

declare csvkit_read_row.simps [simp del]

text \<open>
  The rows at the head of a source that the empty-row filter of \<^verbatim>\<open>csvkit_read_row\<close> drops
  under a configuration: their number, and the source after them. What is decoded from
  that source next is a row that the filter keeps, or an error code.
\<close>

function dropped_rows :: "csvkit_config \<Rightarrow> string \<Rightarrow> nat \<times> string" where
  "dropped_rows cfg src =
     (case parse_row_internal cfg src of
        (Inl e, src') \<Rightarrow> (0, src)
      | (Inr flds, src') \<Rightarrow>
          if skip_empty_rows cfg \<and> all_fields_empty flds
          then (case dropped_rows cfg src' of (k, s) \<Rightarrow> (Suc k, s))
          else (0, src))"
  by pat_completeness auto
termination
  by (relation "measure (\<lambda>(cfg, src). length src)")
    (auto dest: parse_row_internal_consumes [OF sym])

declare dropped_rows.simps [simp del]

text \<open>
  The parser that \<^verbatim>\<open>csvkit_parser_new_with_config\<close> creates for a valid configuration,
  opened on an in-memory buffer.
\<close>

definition parser_on :: "csvkit_config \<Rightarrow> string \<Rightarrow> csvkit_parser" where
  "parser_on cfg data =
     csvkit_open_string
       \<lparr>config = cfg, source_type = SOURCE_NONE, source = [], parser_row_number = 0,
        error_msg = None, expected_field_count = 0\<rparr> data"


text \<open>
  A caller that calls \<^verbatim>\<open>csvkit_read_row\<close> \<open>k\<close> times in a row on one parser: the results
  of the calls in order, and the rows among them.
\<close>

fun read_calls :: "nat \<Rightarrow> csvkit_parser \<Rightarrow> (csvkit_error + csvkit_row) list" where
  "read_calls 0 p = []"
| "read_calls (Suc k) p = (case csvkit_read_row p of (r, p') \<Rightarrow> r # read_calls k p')"

fun returned_rows :: "(csvkit_error + csvkit_row) list \<Rightarrow> csvkit_row list" where
  "returned_rows [] = []"
| "returned_rows (Inr row # rs) = row # returned_rows rs"
| "returned_rows (Inl e # rs) = returned_rows rs"

subsection \<open>Writing rows and reading them back\<close>

abbreviation BACKSLASH :: char where "BACKSLASH \<equiv> CHR 0x5C"

text \<open>\<^verbatim>\<open>isprint\<close> of \<^verbatim>\<open>ctype.h\<close> in the C locale: the bytes from 0x20 to 0x7E.\<close>

definition isprint :: "char \<Rightarrow> bool" where
  "isprint c = (32 \<le> (of_char c :: nat) \<and> (of_char c :: nat) \<le> 126)"

text \<open>
  A configuration that both constructors accept and whose delimiter, quote character and
  escape character are pairwise distinct.
\<close>

definition distinct_dialect :: "csvkit_config \<Rightarrow> bool" where
  "distinct_dialect cfg =
     (parser_validate_config (Some cfg) \<and> escape_char cfg \<noteq> quote_char cfg
      \<and> escape_char cfg \<noteq> delimiter cfg)"

text \<open>
  A configuration whose delimiter, quote character and escape character are ASCII
  characters (below 0x80), the ones that a byte read can equal.
\<close>

definition ascii_dialect :: "csvkit_config \<Rightarrow> bool" where
  "ascii_dialect cfg =
     ((of_char (delimiter cfg) :: nat) < 128 \<and> (of_char (quote_char cfg) :: nat) < 128
      \<and> (of_char (escape_char cfg) :: nat) < 128)"

text \<open>
  Every escape character of the string is followed by a character that is neither the
  quote character nor the escape character.
\<close>

fun escapes_ok :: "csvkit_config \<Rightarrow> string \<Rightarrow> bool" where
  "escapes_ok cfg [] = True"
| "escapes_ok cfg [c] = (c \<noteq> escape_char cfg)"
| "escapes_ok cfg (c # n # cs) =
     (if c = escape_char cfg
      then n \<noteq> quote_char cfg \<and> n \<noteq> escape_char cfg \<and> escapes_ok cfg cs
      else escapes_ok cfg (n # cs))"

text \<open>
  The fields that are read back as they were written: a string of printable characters
  in which, if it is written in quotes, every escape character is followed by a character
  other than the quote and the escape character, and which, if it is written without
  quotes under \<open>trim_whitespace\<close>, neither starts nor ends with whitespace.
\<close>

definition field_ok :: "csvkit_config \<Rightarrow> string \<Rightarrow> bool" where
  "field_ok cfg f =
     ((\<forall>c \<in> set f. isprint c)
      \<and> (field_needs_quotes cfg f \<longrightarrow> escapes_ok cfg f)
      \<and> (trim_whitespace cfg \<and> \<not> field_needs_quotes cfg f \<and> f \<noteq> []
           \<longrightarrow> \<not> isspace (hd f) \<and> \<not> isspace (last f)))"

text \<open>
  A writer created for a configuration and bound to a stream, and a caller that writes
  rows one after the other, stopping at the first error.
\<close>

definition writer_on :: "csvkit_config \<Rightarrow> string \<Rightarrow> csvkit_writer" where
  "writer_on cfg stream =
     csvkit_writer_open_stream
       \<lparr>wconfig = cfg, wfile = None, owns_file = False, werror_msg = None\<rparr> stream"

fun write_rows :: "csvkit_writer \<Rightarrow> string option list list \<Rightarrow> csvkit_error + csvkit_writer" where
  "write_rows w [] = Inr w"
| "write_rows w (r # rs) =
     (case csvkit_writer_write_row (Some w) (Some r) of
        Inl e \<Rightarrow> Inl e
      | Inr w' \<Rightarrow> write_rows w' rs)"

text \<open>The fields of the row that a call returned, or its error code.\<close>

fun result_fields :: "csvkit_error + csvkit_row \<Rightarrow> csvkit_error + string list" where
  "result_fields (Inl e) = Inl e"
| "result_fields (Inr row) = Inr (row_fields row)"

text \<open>The text of a sequence of rows, in the encoding of \<open>row_text\<close>.\<close>

definition rows_text :: "csvkit_config \<Rightarrow> string list list \<Rightarrow> string" where
  "rows_text cfg rows = concat (map (\<lambda>r. row_text cfg (map Some r)) rows)"

section \<open>Properties\<close>

subsection \<open>Construction rejects invalid configurations\<close>

text \<open>
  C9. A configuration whose delimiter equals its quote character, or in which the
  delimiter, the quote character or the escape character is a line feed or a carriage
  return, is rejected by the parser constructor and by the writer constructor (both return
  the null handle). Every other configuration is accepted by both, in particular one whose
  escape character equals its quote character.
\<close>

theorem invalid_config_rejected_by_both:
  "(delimiter cfg = quote_char cfg
      \<or> delimiter cfg \<in> {LF, CR} \<or> quote_char cfg \<in> {LF, CR} \<or> escape_char cfg \<in> {LF, CR}
     \<longrightarrow> csvkit_parser_new_with_config (Some cfg) = None
         \<and> csvkit_writer_new_with_config (Some cfg) = None)
   \<and> (delimiter cfg \<noteq> quote_char cfg
      \<and> delimiter cfg \<notin> {LF, CR} \<and> quote_char cfg \<notin> {LF, CR} \<and> escape_char cfg \<notin> {LF, CR}
     \<longrightarrow> csvkit_parser_new_with_config (Some cfg) \<noteq> None
         \<and> csvkit_writer_new_with_config (Some cfg) \<noteq> None)"
  by (auto simp: csvkit_parser_new_with_config_def csvkit_writer_new_with_config_def
      parser_validate_config_def writer_validate_config_def)

theorem invalid_config_rejected_by_both_witness:
  "csvkit_parser_new_with_config (Some (csvkit_config_default\<lparr>quote_char := CHR '',''\<rparr>)) = None
   \<and> csvkit_writer_new_with_config (Some (csvkit_config_default\<lparr>quote_char := CHR '',''\<rparr>)) = None
   \<and> escape_char csvkit_config_default = quote_char csvkit_config_default
   \<and> csvkit_parser_new_with_config (Some csvkit_config_default) \<noteq> None
   \<and> csvkit_writer_new_with_config (Some csvkit_config_default) \<noteq> None"
  using invalid_config_rejected_by_both [of "csvkit_config_default\<lparr>quote_char := CHR '',''\<rparr>"]
    invalid_config_rejected_by_both [of csvkit_config_default]
  by (simp add: csvkit_config_default_def)

subsection \<open>The encoding of a row\<close>

lemma needs_quoting_iff:
  "needs_quoting (Some f) (delimiter cfg) (quote_char cfg) = field_needs_quotes cfg f"
  by (induction f) (auto simp: field_needs_quotes_def)

lemma write_quoted_chars_eq: "write_quoted_chars cfg f out = out @ escaped_chars cfg f"
  by (induction f arbitrary: out) (simp_all add: escaped_chars_def fputc_def)

lemma write_field_step:
  "write_fields cfg i (fp # fps) out =
     write_fields cfg (Suc i) fps
       ((if i > 0 then out @ [delimiter cfg] else out) @ field_text cfg fp)"
  by (simp add: Let_def needs_quoting_iff write_quoted_chars_eq field_text_def fputc_def fputs_def)

lemma write_fields_later:
  "i > 0 \<Longrightarrow>
   write_fields cfg i fps out = out @ concat (map (\<lambda>fp. delimiter cfg # field_text cfg fp) fps)"
proof (induction fps arbitrary: i out)
  case Nil
  then show ?case by simp
next
  case (Cons fp fps)
  then show ?case by (simp only: write_field_step) simp
qed

lemma fields_text_Cons:
  "fields_text cfg (fp # fps) =
     field_text cfg fp @ concat (map (\<lambda>g. delimiter cfg # field_text cfg g) fps)"
  by (induction fps arbitrary: fp) simp_all

lemma write_fields_eq: "write_fields cfg 0 fps out = out @ fields_text cfg fps"
proof (cases fps)
  case Nil
  then show ?thesis by simp
next
  case (Cons fp rest)
  show ?thesis
    unfolding Cons by (simp only: write_field_step fields_text_Cons) (simp add: write_fields_later)
qed

text \<open>
  C6. \<^verbatim>\<open>csvkit_writer_write_row\<close> appends to the sink the fields in order, a delimiter
  before every field but the first, each field quoted if and only if it contains the
  delimiter, the quote character, a line feed or a carriage return (wrapped in quote
  characters, each inner quote character preceded by the escape character), a null field
  written as the empty string, and one line feed after the last field. The fields
  \<open>a\<close>, \<open>b,c\<close>, \<open>d"e\<close> and \<open>f\<close>, line feed, \<open>g\<close> under the default dialect give
  \<open>a,"b,c","d""e","f\<close>, line feed, \<open>g"\<close>, line feed.
\<close>

theorem write_row_encoding:
  "(wfile w = Some out \<longrightarrow>
      csvkit_writer_write_row (Some w) (Some fps)
        = Inr (w\<lparr>wfile := Some (out @ row_text (wconfig w) fps)\<rparr>))
   \<and> field_text cfg None = []
   \<and> (field_text cfg (Some f) =
        (if (\<exists>c \<in> set f. c = delimiter cfg \<or> c = quote_char cfg \<or> c = LF \<or> c = CR)
         then [quote_char cfg]
              @ concat (map (\<lambda>c. if c = quote_char cfg then [escape_char cfg, c] else [c]) f)
              @ [quote_char cfg]
         else f))
   \<and> row_text cfg (fp # fps) =
        field_text cfg fp @ concat (map (\<lambda>g. delimiter cfg # field_text cfg g) fps) @ [LF]
   \<and> csvkit_writer_write_row
        (Some \<lparr>wconfig = csvkit_config_default, wfile = Some [], owns_file = False,
               werror_msg = None\<rparr>)
        (Some [Some ''a'', Some ''b,c'', Some [CHR ''d'', CHR 0x22, CHR ''e''],
               Some [CHR ''f'', LF, CHR ''g'']])
      = Inr \<lparr>wconfig = csvkit_config_default,
             wfile = Some ([CHR ''a'', CHR '','', CHR 0x22, CHR ''b'', CHR '','', CHR ''c'',
                            CHR 0x22, CHR '','', CHR 0x22, CHR ''d'', CHR 0x22, CHR 0x22,
                            CHR ''e'', CHR 0x22, CHR '','', CHR 0x22, CHR ''f'', LF, CHR ''g'',
                            CHR 0x22, LF]),
             owns_file = False, werror_msg = None\<rparr>"
proof -
  have row: "wfile w = Some out \<longrightarrow>
      csvkit_writer_write_row (Some w) (Some fps)
        = Inr (w\<lparr>wfile := Some (out @ row_text (wconfig w) fps)\<rparr>)"
    by (simp add: csvkit_writer_write_row_def write_fields_eq row_text_def fputc_def)
  have null: "field_text cfg None = []"
    by (simp add: field_text_def field_needs_quotes_def)
  have field: "field_text cfg (Some f) =
        (if (\<exists>c \<in> set f. c = delimiter cfg \<or> c = quote_char cfg \<or> c = LF \<or> c = CR)
         then [quote_char cfg]
              @ concat (map (\<lambda>c. if c = quote_char cfg then [escape_char cfg, c] else [c]) f)
              @ [quote_char cfg]
         else f)"
  proof -
    have "(\<lambda>c. if c = quote_char cfg then [escape_char cfg, c] else [c])
            = (\<lambda>c. if c = quote_char cfg then [escape_char cfg, quote_char cfg] else [c])"
      by auto
    then show ?thesis
      by (simp add: field_text_def field_needs_quotes_def escaped_chars_def)
  qed
  have sep: "row_text cfg (fp # fps) =
        field_text cfg fp @ concat (map (\<lambda>g. delimiter cfg # field_text cfg g) fps) @ [LF]"
    by (simp add: row_text_def fields_text_Cons)
  have ex: "csvkit_writer_write_row
        (Some \<lparr>wconfig = csvkit_config_default, wfile = Some [], owns_file = False,
               werror_msg = None\<rparr>)
        (Some [Some ''a'', Some ''b,c'', Some [CHR ''d'', CHR 0x22, CHR ''e''],
               Some [CHR ''f'', LF, CHR ''g'']])
      = Inr \<lparr>wconfig = csvkit_config_default,
             wfile = Some ([CHR ''a'', CHR '','', CHR 0x22, CHR ''b'', CHR '','', CHR ''c'',
                            CHR 0x22, CHR '','', CHR 0x22, CHR ''d'', CHR 0x22, CHR 0x22,
                            CHR ''e'', CHR 0x22, CHR '','', CHR 0x22, CHR ''f'', LF, CHR ''g'',
                            CHR 0x22, LF]),
             owns_file = False, werror_msg = None\<rparr>"
    by (simp add: csvkit_writer_write_row_def csvkit_config_default_def fputc_def fputs_def)
  from row null field sep ex show ?thesis by blast
qed

theorem write_row_encoding_witness:
  "csvkit_writer_write_row
     (Some \<lparr>wconfig = csvkit_config_default, wfile = Some ''x'', owns_file = False,
            werror_msg = None\<rparr>)
     (Some [None, Some ''p;q'', Some '',''])
   = Inr \<lparr>wconfig = csvkit_config_default,
          wfile = Some [CHR ''x'', CHR '','', CHR ''p'', CHR '';'', CHR ''q'', CHR '','',
                        CHR 0x22, CHR '','', CHR 0x22, LF],
          owns_file = False, werror_msg = None\<rparr>"
  using write_row_encoding
    [of "\<lparr>wconfig = csvkit_config_default, wfile = Some ''x'', owns_file = False,
           werror_msg = None\<rparr>" "''x''" "[None, Some ''p;q'', Some '','']"]
  by (simp add: row_text_def field_text_def field_needs_quotes_def escaped_chars_def
      csvkit_config_default_def)

subsection \<open>Concrete scenarios of the parser\<close>

lemmas parser_eval =
  parser_on_def csvkit_open_string_def csvkit_close_def csvkit_read_row.simps
  parse_row_internal_def parse_loop.simps loop_body_def read_eq_Some read_eq_None
  finish_row_def field_value_def
  string_duplicate_def trim_whitespace_inplace_def isspace_def csvkit_row_is_empty_def
  csvkit_config_default_def Let_def

lemma parser_on_new:
  "csvkit_parser_new_with_config (Some cfg) = Some p \<Longrightarrow> csvkit_open_string p data = parser_on cfg data"
  by (auto simp: csvkit_parser_new_with_config_def parser_on_def split: if_splits)

text \<open>
  C2 (as stated, refuted). With \<open>trim_whitespace\<close> and the default delimiter and quote
  character, the input \<open>  x  , "  y  "\<close> would give the fields \<open>x\<close> and \<open>  y  \<close>. The
  parser gives \<open>x\<close> and \<open>"  y  "\<close>: the space after the delimiter starts the second field,
  so the quote character that follows opens no quoted field and is kept.
\<close>

theorem trim_scenario_counterexample:
  "fst (csvkit_read_row
          (parser_on (csvkit_config_default\<lparr>trim_whitespace := True\<rparr>)
             (''  x  , '' @ [DQUOTE] @ ''  y  '' @ [DQUOTE])))
     = Inr \<lparr>row_fields = [''x'', [DQUOTE] @ ''  y  '' @ [DQUOTE]], row_number = 1\<rparr>
   \<and> [''x'', [DQUOTE] @ ''  y  '' @ [DQUOTE]] \<noteq> [''x'', ''  y  '']"
  by (simp add: parser_eval)

text \<open>
  C2 (amended). With \<open>trim_whitespace\<close> and the default delimiter and quote character, the
  input \<open>  x  , "  y  "\<close> yields one row with the fields \<open>x\<close> and \<open>"  y  "\<close>: both fields are
  unquoted and trimmed of the surrounding whitespace, the quote characters of the second,
  which do not stand at the very start of the field, are ordinary characters, and the
  whitespace between them is kept. When the quote character follows the delimiter
  directly and a line feed ends the row, as in \<open>  x  ,"  y  "\<close> and a line feed, the fields
  are \<open>x\<close> and \<open>  y  \<close>: the unquoted field is trimmed and the quoted field is preserved.
\<close>

theorem trim_scenario_amended:
  "csvkit_read_row
     (parser_on (csvkit_config_default\<lparr>trim_whitespace := True\<rparr>)
        (''  x  , '' @ [DQUOTE] @ ''  y  '' @ [DQUOTE]))
     = (Inr \<lparr>row_fields = [''x'', [DQUOTE] @ ''  y  '' @ [DQUOTE]], row_number = 1\<rparr>,
        (parser_on (csvkit_config_default\<lparr>trim_whitespace := True\<rparr>) [])
          \<lparr>parser_row_number := 1\<rparr>)
   \<and> csvkit_read_row
     (parser_on (csvkit_config_default\<lparr>trim_whitespace := True\<rparr>)
        (''  x  ,'' @ [DQUOTE] @ ''  y  '' @ [DQUOTE, LF]))
     = (Inr \<lparr>row_fields = [''x'', ''  y  ''], row_number = 1\<rparr>,
        (parser_on (csvkit_config_default\<lparr>trim_whitespace := True\<rparr>) [])
          \<lparr>parser_row_number := 1\<rparr>)"
  by (simp add: parser_eval)

subsection \<open>The loop at the end of input\<close>

lemma loop_body_Continue_started:
  "loop_body cfg buf inq st q flds c0 src0 = Continue b i s w f src1 \<Longrightarrow> (inq \<longrightarrow> st)
     \<Longrightarrow> (i \<longrightarrow> s) \<and> (s \<or> f \<noteq> [])"
  unfolding loop_body_def Let_def
  by (auto split: if_splits prod.splits option.splits)

lemma loop_body_Return_PARSE:
  "loop_body cfg buf inq st q flds c0 src0 = Return e src1 \<Longrightarrow> e = CSVKIT_ERROR_PARSE"
  unfolding loop_body_def Let_def
  by (auto split: if_splits prod.splits option.splits)

lemma parse_loop_EOF:
  "parse_loop cfg buf inq st q flds src = (Inl CSVKIT_ERROR_EOF, src') \<Longrightarrow> (inq \<longrightarrow> st)
     \<Longrightarrow> src = [] \<and> flds = [] \<and> buf = [] \<and> \<not> st"
proof (induction cfg buf inq st q flds src rule: parse_loop.induct)
  case (1 cfg buf in_quotes field_started field_was_quoted flds)
  then show ?case by (auto simp: parse_loop.simps finish_row_def split: if_splits)
next
  case (2 cfg buf in_quotes field_started field_was_quoted flds c0 src0)
  show ?case
  proof (cases "loop_body cfg buf in_quotes field_started field_was_quoted flds c0 src0")
    case (Continue b i s w f src1)
    with "2.prems" have run: "parse_loop cfg b i s w f src1 = (Inl CSVKIT_ERROR_EOF, src')"
      by (simp add: parse_loop.simps)
    from loop_body_Continue_started [OF Continue "2.prems"(2)]
    have inv: "i \<longrightarrow> s" and prog: "s \<or> f \<noteq> []" by simp_all
    from "2.IH" [OF Continue run inv] prog show ?thesis by simp
  next
    case (Break c src1)
    with "2.prems" show ?thesis
      by (auto simp: parse_loop.simps finish_row_def split: if_splits)
  next
    case (Return e src1)
    with "2.prems" loop_body_Return_PARSE [OF Return] show ?thesis
      by (simp add: parse_loop.simps)
  qed
qed

lemma parse_loop_fields_nonempty:
  "parse_loop cfg buf inq st q flds src = (Inr fl, src') \<Longrightarrow> fl \<noteq> []"
proof (induction cfg buf inq st q flds src rule: parse_loop.induct)
  case (1 cfg buf in_quotes field_started field_was_quoted flds)
  then show ?case by (auto simp: parse_loop.simps finish_row_def split: if_splits)
next
  case (2 cfg buf in_quotes field_started field_was_quoted flds c0 src0)
  then show ?case
    by (cases "loop_body cfg buf in_quotes field_started field_was_quoted flds c0 src0")
      (auto simp: parse_loop.simps finish_row_def split: if_splits)
qed

lemma parse_row_internal_EOF_iff:
  "fst (parse_row_internal cfg src) = Inl CSVKIT_ERROR_EOF \<longleftrightarrow> src = []"
proof
  assume "fst (parse_row_internal cfg src) = Inl CSVKIT_ERROR_EOF"
  then obtain src' where "parse_loop cfg [] False False False [] src = (Inl CSVKIT_ERROR_EOF, src')"
    by (cases "parse_loop cfg [] False False False [] src") (simp add: parse_row_internal_def)
  from parse_loop_EOF [OF this] show "src = []" by simp
next
  assume "src = []"
  then show "fst (parse_row_internal cfg src) = Inl CSVKIT_ERROR_EOF"
    by (simp add: parse_row_internal_def parse_loop.simps finish_row_def)
qed

lemma parse_row_internal_Nil:
  "parse_row_internal cfg [] = (Inl CSVKIT_ERROR_EOF, [])"
  by (simp add: parse_row_internal_def parse_loop.simps finish_row_def)

lemma read_row_OK_nonempty:
  "csvkit_read_row p = (Inr row, p') \<Longrightarrow> row_fields row \<noteq> []"
proof (induction p rule: csvkit_read_row.induct)
  case (1 p)
  show ?case
  proof (cases "parse_row_internal (config p) (source p)")
    case (Pair res src)
    show ?thesis
    proof (cases res)
      case (Inl e)
      with Pair "1.prems" show ?thesis
        by (subst (asm) csvkit_read_row.simps) (simp split: if_splits)
    next
      case (Inr flds)
      with Pair have ne: "flds \<noteq> []"
        by (auto simp: parse_row_internal_def dest: parse_loop_fields_nonempty)
      from "1.prems" Pair Inr ne "1.IH" show ?thesis
        apply (subst (asm) csvkit_read_row.simps)
        apply (auto simp: Let_def split: if_splits)
        done
    qed
  qed
qed


lemma read_row_EOF_exhausted:
  "csvkit_read_row p = (Inl CSVKIT_ERROR_EOF, p') \<Longrightarrow> source p' = []"
proof (induction p rule: csvkit_read_row.induct)
  case (1 p)
  show ?case
  proof (cases "source_type p = SOURCE_NONE")
    case True
    with "1.prems" show ?thesis by (subst (asm) csvkit_read_row.simps) simp
  next
    case opened: False
    show ?thesis
    proof (cases "parse_row_internal (config p) (source p)")
      case (Pair res src)
      show ?thesis
      proof (cases res)
        case (Inl e)
        with Pair "1.prems" opened have e: "e = CSVKIT_ERROR_EOF" and p': "source p' = src"
          by (subst (asm) csvkit_read_row.simps; auto)+
        from Pair Inl e have "source p = []"
          using parse_row_internal_EOF_iff [of "config p" "source p"] by simp
        with Pair have "src = []" by (simp add: parse_row_internal_Nil)
        with p' show ?thesis by simp
      next
        case (Inr flds)
        from "1.prems" Pair Inr opened "1.IH" show ?thesis
          apply (subst (asm) csvkit_read_row.simps)
          apply (auto simp: Let_def split: if_splits)
          done
      qed
    qed
  qed
qed

lemma read_row_on_empty:
  "source_type p \<noteq> SOURCE_NONE \<Longrightarrow> source p = [] \<Longrightarrow> csvkit_read_row p = (Inl CSVKIT_ERROR_EOF, p)"
  by (subst csvkit_read_row.simps) (simp add: parse_row_internal_Nil)

lemma read_row_no_skip_EOF:
  assumes "source_type p \<noteq> SOURCE_NONE" "\<not> skip_empty_rows (config p)"
    "fst (csvkit_read_row p) = Inl CSVKIT_ERROR_EOF"
  shows "source p = []"
proof (cases "parse_row_internal (config p) (source p)")
  case (Pair res src)
  show ?thesis
  proof (cases res)
    case (Inl e)
    with Pair assms have "e = CSVKIT_ERROR_EOF"
      by (subst (asm) csvkit_read_row.simps) simp
    with Pair Inl show ?thesis
      using parse_row_internal_EOF_iff [of "config p" "source p"] by simp
  next
    case (Inr flds)
    with Pair assms show ?thesis
      by (subst (asm) csvkit_read_row.simps) (simp add: Let_def split: if_splits)
  qed
qed

subsection \<open>An escape character before an ordinary character\<close>

text \<open>
  C7. Inside a quoted field, with an escape character that differs from the quote
  character, an escape character followed by a character that is neither the quote nor the
  escape character puts the escape character into the field, and the parser then goes on
  as it does on the following character read as the next input character in that state: in
  both readings that character is appended to the field and the parser stays inside the
  quoted field. (An ASCII escape character is recognised and both characters are appended
  in one iteration; an escape character of 0x80 or above equals no byte read and is
  appended as an ordinary character, the next iteration appending the following one.)
\<close>

theorem escape_before_other_char:
  "escape_char cfg \<noteq> quote_char cfg \<Longrightarrow> n \<noteq> quote_char cfg \<Longrightarrow> n \<noteq> escape_char cfg \<Longrightarrow>
     parse_loop cfg buf True started quoted flds (escape_char cfg # n # src)
       = parse_loop cfg (buf @ [escape_char cfg]) True True quoted flds (n # src)
     \<and> loop_body cfg buf True started quoted flds (escape_char cfg) (n # src)
       = (if (of_char (escape_char cfg) :: nat) < 128
          then Continue ((buf @ [escape_char cfg]) @ [n]) True True quoted flds src
          else Continue (buf @ [escape_char cfg]) True True quoted flds (n # src))
     \<and> loop_body cfg (buf @ [escape_char cfg]) True True quoted flds n src
       = Continue ((buf @ [escape_char cfg]) @ [n]) True True quoted flds src"
  by (simp add: parse_loop.simps loop_body_def read_eq_Some)

theorem escape_before_other_char_witness:
  "parse_loop (csvkit_config_default\<lparr>escape_char := CHR 0x5C\<rparr>) ''a'' True True True []
     ([CHR 0x5C] @ '',b'' @ [DQUOTE, LF])
   = parse_loop (csvkit_config_default\<lparr>escape_char := CHR 0x5C\<rparr>) (''a'' @ [CHR 0x5C])
       True True True [] ('',b'' @ [DQUOTE, LF])
   \<and> parse_loop (csvkit_config_default\<lparr>escape_char := CHR 0x5C\<rparr>) ''a'' True True True []
     ([CHR 0x5C] @ '',b'' @ [DQUOTE, LF])
   = (Inr [''a'' @ [CHR 0x5C] @ '',b''], [])"
  using escape_before_other_char
    [where cfg = "csvkit_config_default\<lparr>escape_char := CHR 0x5C\<rparr>" and n = "CHR '',''"
      and buf = "''a''" and started = True and quoted = True and flds = "[]"
      and src = "''b'' @ [DQUOTE, LF]"]
  by (simp add: parser_eval)

subsection \<open>Calls of \<^verbatim>\<open>csvkit_read_row\<close>\<close>

lemma row_is_empty_eq:
  "csvkit_row_is_empty (Some \<lparr>row_fields = flds, row_number = n\<rparr>) = all_fields_empty flds"
  by (cases flds) (simp_all add: csvkit_row_is_empty_def)

lemma read_row_unfold_error:
  "source_type p \<noteq> SOURCE_NONE \<Longrightarrow> parse_row_internal (config p) (source p) = (Inl e, src) \<Longrightarrow>
   csvkit_read_row p =
     (Inl e, p\<lparr>source := src,
               error_msg := (if e = CSVKIT_ERROR_PARSE then Some ''Unclosed quoted field''
                             else if e = CSVKIT_ERROR_MEMORY then Some ''Out of memory''
                             else error_msg p)\<rparr>)"
  by (subst csvkit_read_row.simps) simp

lemma read_row_unfold_row:
  "source_type p \<noteq> SOURCE_NONE \<Longrightarrow> parse_row_internal (config p) (source p) = (Inr flds, src) \<Longrightarrow>
   csvkit_read_row p =
     (if skip_empty_rows (config p) \<and> all_fields_empty flds then
        csvkit_read_row (p\<lparr>source := src, parser_row_number := parser_row_number p + 1\<rparr>)
      else if strict_mode (config p) \<and> expected_field_count p = 0 then
        (Inr \<lparr>row_fields = flds, row_number = parser_row_number p + 1\<rparr>,
         p\<lparr>source := src, parser_row_number := parser_row_number p + 1,
           expected_field_count := length flds\<rparr>)
      else if strict_mode (config p) \<and> length flds \<noteq> expected_field_count p then
        (Inl CSVKIT_ERROR_PARSE,
         p\<lparr>source := src, parser_row_number := parser_row_number p + 1,
           error_msg := Some ''Field count mismatch in strict mode''\<rparr>)
      else
        (Inr \<lparr>row_fields = flds, row_number = parser_row_number p + 1\<rparr>,
         p\<lparr>source := src, parser_row_number := parser_row_number p + 1\<rparr>))"
proof -
  assume a: "source_type p \<noteq> SOURCE_NONE" "parse_row_internal (config p) (source p) = (Inr flds, src)"
  show ?thesis
    by (subst csvkit_read_row.simps) (simp add: a row_is_empty_eq Let_def)
qed

lemma read_row_induct [consumes 1, case_names closed error skipped row]:
  assumes "csvkit_read_row p = (r, p')"
    and "\<And>p. source_type p = SOURCE_NONE \<Longrightarrow> P p (Inl CSVKIT_ERROR_INVALID_ARG) p"
    and "\<And>p e src. source_type p \<noteq> SOURCE_NONE \<Longrightarrow>
           parse_row_internal (config p) (source p) = (Inl e, src) \<Longrightarrow>
           P p (Inl e) (p\<lparr>source := src,
               error_msg := (if e = CSVKIT_ERROR_PARSE then Some ''Unclosed quoted field''
                             else if e = CSVKIT_ERROR_MEMORY then Some ''Out of memory''
                             else error_msg p)\<rparr>)"
    and "\<And>p flds src r p'. source_type p \<noteq> SOURCE_NONE \<Longrightarrow>
           parse_row_internal (config p) (source p) = (Inr flds, src) \<Longrightarrow>
           skip_empty_rows (config p) \<Longrightarrow> all_fields_empty flds \<Longrightarrow>
           csvkit_read_row (p\<lparr>source := src, parser_row_number := parser_row_number p + 1\<rparr>)
             = (r, p') \<Longrightarrow>
           P (p\<lparr>source := src, parser_row_number := parser_row_number p + 1\<rparr>) r p' \<Longrightarrow>
           P p r p'"
    and "\<And>p flds src. source_type p \<noteq> SOURCE_NONE \<Longrightarrow>
           parse_row_internal (config p) (source p) = (Inr flds, src) \<Longrightarrow>
           \<not> (skip_empty_rows (config p) \<and> all_fields_empty flds) \<Longrightarrow>
           P p (if strict_mode (config p) \<and> expected_field_count p \<noteq> 0
                   \<and> length flds \<noteq> expected_field_count p
                then Inl CSVKIT_ERROR_PARSE
                else Inr \<lparr>row_fields = flds, row_number = parser_row_number p + 1\<rparr>)
               (if strict_mode (config p) \<and> expected_field_count p = 0
                then p\<lparr>source := src, parser_row_number := parser_row_number p + 1,
                       expected_field_count := length flds\<rparr>
                else if strict_mode (config p) \<and> length flds \<noteq> expected_field_count p
                then p\<lparr>source := src, parser_row_number := parser_row_number p + 1,
                       error_msg := Some ''Field count mismatch in strict mode''\<rparr>
                else p\<lparr>source := src, parser_row_number := parser_row_number p + 1\<rparr>)"
  shows "P p r p'"
  using assms(1)
proof (induction p arbitrary: r p' rule: csvkit_read_row.induct)
  case (1 p)
  show ?case
  proof (cases "source_type p = SOURCE_NONE")
    case True
    with "1.prems" assms(2) [of p] show ?thesis
      by (subst (asm) csvkit_read_row.simps) auto
  next
    case opened: False
    show ?thesis
    proof (cases "parse_row_internal (config p) (source p)")
      case (Pair res src)
      show ?thesis
      proof (cases res)
        case (Inl e)
        with Pair opened "1.prems" assms(3) [of p e src] show ?thesis
          by (simp add: read_row_unfold_error)
      next
        case (Inr flds)
        note run = Pair [unfolded Inr]
        show ?thesis
        proof (cases "skip_empty_rows (config p) \<and> all_fields_empty flds")
          case True
          let ?p1 = "p\<lparr>source := src, parser_row_number := parser_row_number p + 1\<rparr>"
          from True "1.prems" opened run have next_call: "csvkit_read_row ?p1 = (r, p')"
            by (simp add: read_row_unfold_row)
          have e: "csvkit_row_is_empty (Some \<lparr>row_fields = flds, row_number = n\<rparr>)" for n
            using True by (simp add: row_is_empty_eq)
          have "P ?p1 r p'"
            by (rule "1.IH" [OF opened run [symmetric] refl refl refl _ next_call])
              (use True e in simp)
          with assms(4) [OF opened run _ _ next_call] True show ?thesis by simp
        next
          case False
          with "1.prems" opened run assms(5) [OF opened run False] show ?thesis
            by (auto simp: read_row_unfold_row split: if_splits)
        qed
      qed
    qed
  qed
qed


lemma read_row_keeps_config:
  "csvkit_read_row p = (r, p') \<Longrightarrow> config p' = config p \<and> source_type p' = source_type p"
  by (induction rule: read_row_induct) auto

lemma read_row_number:
  "csvkit_read_row p = (r, p') \<Longrightarrow> r = Inr row \<Longrightarrow>
     row_number row = parser_row_number p' \<and> parser_row_number p < parser_row_number p'"
  by (induction rule: read_row_induct) (auto split: if_splits)

lemma read_row_no_skip_number:
  "csvkit_read_row p = (r, p') \<Longrightarrow> \<not> skip_empty_rows (config p) \<Longrightarrow>
     (case r of
        Inr row \<Rightarrow> parser_row_number p' = parser_row_number p + 1
      | Inl e \<Rightarrow> \<not> strict_mode (config p) \<longrightarrow> parser_row_number p' = parser_row_number p)"
  by (induction rule: read_row_induct) (auto split: if_splits)

lemma read_row_strict:
  "csvkit_read_row p = (r, p') \<Longrightarrow> strict_mode (config p) \<Longrightarrow>
     (case r of
        Inr row \<Rightarrow>
          row_fields row \<noteq> []
          \<and> (if expected_field_count p = 0
             then expected_field_count p' = length (row_fields row)
             else length (row_fields row) = expected_field_count p
                  \<and> expected_field_count p' = expected_field_count p)
      | Inl e \<Rightarrow> expected_field_count p' = expected_field_count p)"
proof (induction rule: read_row_induct)
  case (row p flds src)
  from row(2) have "flds \<noteq> []"
    by (auto simp: parse_row_internal_def dest: parse_loop_fields_nonempty)
  with row show ?case by auto
qed (auto split: sum.splits)

lemma read_calls_numbers:
  "\<not> skip_empty_rows (config p) \<Longrightarrow> \<not> strict_mode (config p) \<Longrightarrow>
   n < length (returned_rows (read_calls k p)) \<Longrightarrow>
   row_number (returned_rows (read_calls k p) ! n) = parser_row_number p + n + 1"
proof (induction k arbitrary: p n)
  case 0
  then show ?case by simp
next
  case (Suc k)
  obtain r p' where call: "csvkit_read_row p = (r, p')" by (cases "csvkit_read_row p")
  from read_row_keeps_config [OF call] Suc.prems
  have cfg: "\<not> skip_empty_rows (config p')" "\<not> strict_mode (config p')" by simp_all
  show ?case
  proof (cases r)
    case (Inl e)
    with read_row_no_skip_number [OF call Suc.prems(1)] Suc.prems(2)
    have same: "parser_row_number p' = parser_row_number p" by simp
    from Suc.prems(3) call Inl have "n < length (returned_rows (read_calls k p'))" by simp
    from Suc.IH [OF cfg this] same call Inl show ?thesis by simp
  next
    case (Inr row)
    with read_row_no_skip_number [OF call Suc.prems(1)]
    have inc: "parser_row_number p' = parser_row_number p + 1" by simp
    from read_row_number [OF call Inr] inc
    have num: "row_number row = parser_row_number p + 1" by simp
    show ?thesis
    proof (cases n)
      case 0
      with call Inr num show ?thesis by simp
    next
      case (Suc m)
      with Suc.prems(3) call Inr have "m < length (returned_rows (read_calls k p'))" by simp
      from Suc.IH [OF cfg this] inc call Inr Suc show ?thesis by simp
    qed
  qed
qed


lemma dropped_rows_no_skip: "\<not> skip_empty_rows cfg \<Longrightarrow> dropped_rows cfg src = (0, src)"
  by (subst dropped_rows.simps) (simp split: prod.splits sum.splits)

lemma dropped_rows_kept:
  "dropped_rows cfg src = (k, s) \<Longrightarrow> parse_row_internal cfg s = (Inr flds, s') \<Longrightarrow>
   \<not> (skip_empty_rows cfg \<and> all_fields_empty flds)"
proof (induction cfg src arbitrary: k rule: dropped_rows.induct)
  case (1 cfg src)
  show ?case
  proof (cases "parse_row_internal cfg src")
    case (Pair res src1)
    show ?thesis
    proof (cases res)
      case (Inl e)
      with Pair "1.prems" show ?thesis
        by (subst (asm) dropped_rows.simps) auto
    next
      case (Inr fl)
      show ?thesis
      proof (cases "skip_empty_rows cfg \<and> all_fields_empty fl")
        case True
        obtain k1 s1 where rec: "dropped_rows cfg src1 = (k1, s1)"
          by (cases "dropped_rows cfg src1")
        with True Pair Inr "1.prems"(1) have "s1 = s"
          by (subst (asm) dropped_rows.simps) simp
        with rec "1.IH" [OF Pair [symmetric] Inr True _ "1.prems"(2), of k1] show ?thesis
          by simp
      next
        case False
        with Pair Inr "1.prems" show ?thesis
          by (subst (asm) dropped_rows.simps) auto
      qed
    qed
  qed
qed

lemma read_row_after_dropped:
  "config p = cfg \<Longrightarrow> source p = src \<Longrightarrow> source_type p \<noteq> SOURCE_NONE \<Longrightarrow>
   dropped_rows cfg src = (k, s) \<Longrightarrow>
   csvkit_read_row p
     = csvkit_read_row (p\<lparr>source := s, parser_row_number := parser_row_number p + k\<rparr>)"
proof (induction cfg src arbitrary: p k rule: dropped_rows.induct)
  case (1 cfg src)
  note cfg = "1.prems"(1) and src = "1.prems"(2) and opened = "1.prems"(3)
  show ?case
  proof (cases "parse_row_internal cfg src")
    case (Pair res src1)
    show ?thesis
    proof (cases res)
      case (Inl e)
      with Pair "1.prems"(4) have "k = 0" "s = src"
        by (subst (asm) dropped_rows.simps; simp)+
      moreover have "p\<lparr>source := source p\<rparr> = p" by simp
      ultimately show ?thesis using src by auto
    next
      case (Inr fl)
      show ?thesis
      proof (cases "skip_empty_rows cfg \<and> all_fields_empty fl")
        case True
        obtain k1 s1 where rec: "dropped_rows cfg src1 = (k1, s1)"
          by (cases "dropped_rows cfg src1")
        with True Pair Inr "1.prems"(4) have ks: "k = Suc k1" "s = s1"
          by (subst (asm) dropped_rows.simps; simp)+
        let ?p1 = "p\<lparr>source := src1, parser_row_number := parser_row_number p + 1\<rparr>"
        from Pair Inr cfg src have run: "parse_row_internal (config p) (source p) = (Inr fl, src1)"
          by simp
        from True cfg have "csvkit_read_row p = csvkit_read_row ?p1"
          by (simp add: read_row_unfold_row [OF opened run])
        also have "\<dots> = csvkit_read_row
            (?p1\<lparr>source := s, parser_row_number := parser_row_number ?p1 + k1\<rparr>)"
          using "1.IH" [OF Pair [symmetric] Inr True, of ?p1 k1] cfg opened rec ks by simp
        finally show ?thesis using ks by simp
      next
        case False
        with Pair Inr "1.prems"(4) have "k = 0" "s = src"
          by (subst (asm) dropped_rows.simps; auto)+
        moreover have "p\<lparr>source := source p\<rparr> = p" by simp
        ultimately show ?thesis using src by auto
      qed
    qed
  qed
qed

lemma read_row_result_error:
  assumes "source_type p \<noteq> SOURCE_NONE" "dropped_rows (config p) (source p) = (k, s)"
    "parse_row_internal (config p) s = (Inl e, s')"
  shows "csvkit_read_row p =
     (Inl e, p\<lparr>source := s', parser_row_number := parser_row_number p + k,
               error_msg := (if e = CSVKIT_ERROR_PARSE then Some ''Unclosed quoted field''
                             else if e = CSVKIT_ERROR_MEMORY then Some ''Out of memory''
                             else error_msg p)\<rparr>)"
  using read_row_after_dropped [OF refl refl assms(1,2)] assms(1,3)
  by (simp add: read_row_unfold_error)

lemma read_row_result_row:
  assumes "source_type p \<noteq> SOURCE_NONE" "dropped_rows (config p) (source p) = (k, s)"
    "parse_row_internal (config p) s = (Inr flds, s')"
  shows "csvkit_read_row p =
     (if strict_mode (config p) \<and> expected_field_count p = 0 then
        (Inr \<lparr>row_fields = flds, row_number = parser_row_number p + k + 1\<rparr>,
         p\<lparr>source := s', parser_row_number := parser_row_number p + k + 1,
           expected_field_count := length flds\<rparr>)
      else if strict_mode (config p) \<and> length flds \<noteq> expected_field_count p then
        (Inl CSVKIT_ERROR_PARSE,
         p\<lparr>source := s', parser_row_number := parser_row_number p + k + 1,
           error_msg := Some ''Field count mismatch in strict mode''\<rparr>)
      else
        (Inr \<lparr>row_fields = flds, row_number = parser_row_number p + k + 1\<rparr>,
         p\<lparr>source := s', parser_row_number := parser_row_number p + k + 1\<rparr>))"
proof -
  let ?p2 = "p\<lparr>source := s, parser_row_number := parser_row_number p + k\<rparr>"
  from dropped_rows_kept [OF assms(2,3)]
  have keep: "\<not> (skip_empty_rows (config ?p2) \<and> all_fields_empty flds)" by simp
  have run: "parse_row_internal (config ?p2) (source ?p2) = (Inr flds, s')"
    using assms(3) by simp
  have opened: "source_type ?p2 \<noteq> SOURCE_NONE" using assms(1) by simp
  from read_row_after_dropped [OF refl refl assms(1,2)]
  have "csvkit_read_row p = csvkit_read_row ?p2" .
  also note read_row_unfold_row [OF opened run]
  finally show ?thesis using keep by auto
qed


lemma read_row_EOF_iff_dropped:
  assumes "source_type p \<noteq> SOURCE_NONE"
  shows "fst (csvkit_read_row p) = Inl CSVKIT_ERROR_EOF
     \<longleftrightarrow> snd (dropped_rows (config p) (source p)) = []"
proof -
  obtain k s where d: "dropped_rows (config p) (source p) = (k, s)"
    by (cases "dropped_rows (config p) (source p)")
  obtain res s' where run: "parse_row_internal (config p) s = (res, s')"
    by (cases "parse_row_internal (config p) s")
  from parse_row_internal_EOF_iff [of "config p" s] run
  have eof: "res = Inl CSVKIT_ERROR_EOF \<longleftrightarrow> s = []" by simp
  show ?thesis
  proof (cases res)
    case (Inl e)
    with read_row_result_error [OF assms d] run eof d show ?thesis by simp
  next
    case (Inr flds)
    with read_row_result_row [OF assms d] run eof d show ?thesis by (auto split: if_splits)
  qed
qed

lemma read_row_EOF_result:
  assumes "source_type p \<noteq> SOURCE_NONE" "fst (csvkit_read_row p) = Inl CSVKIT_ERROR_EOF"
  shows "csvkit_read_row p =
     (Inl CSVKIT_ERROR_EOF,
      p\<lparr>source := [],
        parser_row_number := parser_row_number p + fst (dropped_rows (config p) (source p))\<rparr>)"
proof -
  obtain k s where d: "dropped_rows (config p) (source p) = (k, s)"
    by (cases "dropped_rows (config p) (source p)")
  with read_row_EOF_iff_dropped [OF assms(1)] assms(2) have s: "s = []" by simp
  from read_row_result_error [OF assms(1) d [unfolded s] parse_row_internal_Nil] d
  show ?thesis by simp
qed

lemma read_row_counter:
  assumes "source_type p \<noteq> SOURCE_NONE"
  shows "parser_row_number (snd (csvkit_read_row p))
     = parser_row_number p + fst (dropped_rows (config p) (source p))
       + (case fst (parse_row_internal (config p) (snd (dropped_rows (config p) (source p)))) of
            Inl e \<Rightarrow> 0 | Inr flds \<Rightarrow> 1)"
proof -
  obtain k s where d: "dropped_rows (config p) (source p) = (k, s)"
    by (cases "dropped_rows (config p) (source p)")
  obtain res s' where run: "parse_row_internal (config p) s = (res, s')"
    by (cases "parse_row_internal (config p) s")
  show ?thesis
  proof (cases res)
    case (Inl e)
    with read_row_result_error [OF assms d] run d show ?thesis by simp
  next
    case (Inr flds)
    with read_row_result_row [OF assms d] run d show ?thesis by simp
  qed
qed

lemma read_row_counter_mono:
  "csvkit_read_row p = (r, p') \<Longrightarrow> parser_row_number p \<le> parser_row_number p'"
  by (induction rule: read_row_induct) (auto split: if_splits)

lemma read_calls_increasing:
  "sorted_wrt (<) (map row_number (returned_rows (read_calls k p)))
   \<and> (\<forall>row \<in> set (returned_rows (read_calls k p)). parser_row_number p < row_number row)"
proof (induction k arbitrary: p)
  case 0
  then show ?case by simp
next
  case (Suc k)
  obtain r p' where call: "csvkit_read_row p = (r, p')" by (cases "csvkit_read_row p")
  from read_row_counter_mono [OF call] have mono: "parser_row_number p \<le> parser_row_number p'" .
  note IH = Suc.IH [of p']
  show ?case
  proof (cases r)
    case (Inl e)
    with call IH mono show ?thesis by (auto simp: less_le_trans le_less_trans)
  next
    case (Inr row)
    from read_row_number [OF call Inr]
    have "row_number row = parser_row_number p'" "parser_row_number p < parser_row_number p'"
      by simp_all
    with call Inr IH show ?thesis by (auto intro: less_trans)
  qed
qed

lemma read_calls_prefix: "j \<le> k \<Longrightarrow> take j (read_calls k p) = read_calls j p"
proof (induction j arbitrary: k p)
  case 0
  then show ?case by simp
next
  case (Suc j)
  then obtain k' where k: "k = Suc k'" and le: "j \<le> k'" by (cases k) simp_all
  with Suc.IH [OF le] show ?case by (simp split: prod.splits)
qed


subsection \<open>End of input, for every parser\<close>

text \<open>
  C8. \<^verbatim>\<open>csvkit_read_row\<close> signals the end of input exactly when the source is exhausted
  with no field appended, no character buffered and the current field never started: this
  is the test after the loop, and \<^verbatim>\<open>parse_row_internal\<close> meets it exactly on a source that
  is already exhausted. \<^verbatim>\<open>csvkit_read_row\<close> returns the end of input exactly when the
  source that remains after the rows dropped by the empty-row filter is exhausted (the
  source itself, without \<open>skip_empty_rows\<close>); the source is then left exhausted and the
  row counter advanced by the rows dropped. On an exhausted source the call returns the
  end of input at once, with no row and the parser unchanged. Every row returned has at
  least one field.
\<close>

theorem end_of_input_signal:
  "(finish_row cfg buf inq started quoted flds c = Inl CSVKIT_ERROR_EOF
      \<longleftrightarrow> c = None \<and> flds = [] \<and> buf = [] \<and> \<not> started)
   \<and> (fst (parse_row_internal cfg src) = Inl CSVKIT_ERROR_EOF \<longleftrightarrow> src = [])
   \<and> (source_type p \<noteq> SOURCE_NONE \<longrightarrow>
        (source p = [] \<longrightarrow> csvkit_read_row p = (Inl CSVKIT_ERROR_EOF, p))
      \<and> (fst (csvkit_read_row p) = Inl CSVKIT_ERROR_EOF
           \<longrightarrow> source (snd (csvkit_read_row p)) = [])
      \<and> (\<not> skip_empty_rows (config p) \<longrightarrow>
           (fst (csvkit_read_row p) = Inl CSVKIT_ERROR_EOF \<longleftrightarrow> source p = []))
      \<and> (fst (csvkit_read_row p) = Inl CSVKIT_ERROR_EOF
           \<longleftrightarrow> snd (dropped_rows (config p) (source p)) = [])
      \<and> (fst (csvkit_read_row p) = Inl CSVKIT_ERROR_EOF
           \<longleftrightarrow> fst (parse_row_internal (config p) (snd (dropped_rows (config p) (source p))))
                 = Inl CSVKIT_ERROR_EOF)
      \<and> (fst (csvkit_read_row p) = Inl CSVKIT_ERROR_EOF
           \<longrightarrow> csvkit_read_row p
                = (Inl CSVKIT_ERROR_EOF,
                   p\<lparr>source := [],
                     parser_row_number :=
                       parser_row_number p + fst (dropped_rows (config p) (source p))\<rparr>)))
   \<and> (\<not> skip_empty_rows cfg \<longrightarrow> dropped_rows cfg src = (0, src))
   \<and> (\<forall>row p'. csvkit_read_row p = (Inr row, p') \<longrightarrow> length (row_fields row) \<ge> 1)"
proof -
  have a: "finish_row cfg buf inq started quoted flds c = Inl CSVKIT_ERROR_EOF
      \<longleftrightarrow> c = None \<and> flds = [] \<and> buf = [] \<and> \<not> started"
    by (simp add: finish_row_def)
  have b: "fst (parse_row_internal cfg src) = Inl CSVKIT_ERROR_EOF \<longleftrightarrow> src = []"
    by (rule parse_row_internal_EOF_iff)
  have c1: "source_type p \<noteq> SOURCE_NONE \<Longrightarrow> source p = []
      \<Longrightarrow> csvkit_read_row p = (Inl CSVKIT_ERROR_EOF, p)"
    by (rule read_row_on_empty)
  have c2: "fst (csvkit_read_row p) = Inl CSVKIT_ERROR_EOF
      \<Longrightarrow> source (snd (csvkit_read_row p)) = []"
    using read_row_EOF_exhausted [of p "snd (csvkit_read_row p)"]
    by (cases "csvkit_read_row p") simp
  have c3: "source_type p \<noteq> SOURCE_NONE \<Longrightarrow> \<not> skip_empty_rows (config p)
      \<Longrightarrow> fst (csvkit_read_row p) = Inl CSVKIT_ERROR_EOF \<longleftrightarrow> source p = []"
    using read_row_no_skip_EOF [of p] read_row_on_empty [of p] by auto
  have c4: "source_type p \<noteq> SOURCE_NONE \<Longrightarrow>
      fst (csvkit_read_row p) = Inl CSVKIT_ERROR_EOF
        \<longleftrightarrow> snd (dropped_rows (config p) (source p)) = []"
    by (rule read_row_EOF_iff_dropped)
  have c5: "source_type p \<noteq> SOURCE_NONE \<Longrightarrow>
      fst (csvkit_read_row p) = Inl CSVKIT_ERROR_EOF
        \<longleftrightarrow> fst (parse_row_internal (config p) (snd (dropped_rows (config p) (source p))))
              = Inl CSVKIT_ERROR_EOF"
    by (simp add: read_row_EOF_iff_dropped parse_row_internal_EOF_iff)
  have c6: "source_type p \<noteq> SOURCE_NONE \<Longrightarrow> fst (csvkit_read_row p) = Inl CSVKIT_ERROR_EOF
      \<Longrightarrow> csvkit_read_row p
                = (Inl CSVKIT_ERROR_EOF,
                   p\<lparr>source := [],
                     parser_row_number :=
                       parser_row_number p + fst (dropped_rows (config p) (source p))\<rparr>)"
    by (rule read_row_EOF_result)
  have e: "\<not> skip_empty_rows cfg \<Longrightarrow> dropped_rows cfg src = (0, src)"
    by (rule dropped_rows_no_skip)
  have d: "\<forall>row p'. csvkit_read_row p = (Inr row, p') \<longrightarrow> length (row_fields row) \<ge> 1"
    using read_row_OK_nonempty [of p] by (auto simp: Suc_le_eq)
  from a b c1 c2 c3 c4 c5 c6 e d show ?thesis by blast
qed

theorem end_of_input_signal_witness:
  "csvkit_read_row (parser_on csvkit_config_default [])
     = (Inl CSVKIT_ERROR_EOF, parser_on csvkit_config_default [])
   \<and> fst (csvkit_read_row (parser_on csvkit_config_default ''a'')) \<noteq> Inl CSVKIT_ERROR_EOF
   \<and> csvkit_read_row (parser_on csvkit_config_default [LF])
       = (Inr \<lparr>row_fields = [[]], row_number = 1\<rparr>,
          (parser_on csvkit_config_default [])\<lparr>parser_row_number := 1\<rparr>)
   \<and> length (row_fields \<lparr>row_fields = [[]], row_number = 1\<rparr>) \<ge> 1
   \<and> dropped_rows (csvkit_config_default\<lparr>skip_empty_rows := True\<rparr>) ('','' @ [LF, LF]) = (2, [])
   \<and> csvkit_read_row (parser_on (csvkit_config_default\<lparr>skip_empty_rows := True\<rparr>) ('','' @ [LF, LF]))
       = (Inl CSVKIT_ERROR_EOF,
          (parser_on (csvkit_config_default\<lparr>skip_empty_rows := True\<rparr>) [])
            \<lparr>parser_row_number := 2\<rparr>)
   \<and> dropped_rows (csvkit_config_default\<lparr>skip_empty_rows := True\<rparr>) ([LF] @ ''a,b'')
       = (1, ''a,b'')
   \<and> fst (csvkit_read_row (parser_on (csvkit_config_default\<lparr>skip_empty_rows := True\<rparr>)
              ([LF] @ ''a,b'')))
       \<noteq> Inl CSVKIT_ERROR_EOF"
proof -
  have d1: "dropped_rows (csvkit_config_default\<lparr>skip_empty_rows := True\<rparr>) ('','' @ [LF, LF])
      = (2, [])"
    by (simp add: dropped_rows.simps parser_eval)
  have d2: "dropped_rows (csvkit_config_default\<lparr>skip_empty_rows := True\<rparr>) ([LF] @ ''a,b'')
      = (1, ''a,b'')"
    by (simp add: dropped_rows.simps parser_eval)
  have first: "csvkit_read_row (parser_on csvkit_config_default [])
     = (Inl CSVKIT_ERROR_EOF, parser_on csvkit_config_default [])
   \<and> fst (csvkit_read_row (parser_on csvkit_config_default ''a'')) \<noteq> Inl CSVKIT_ERROR_EOF
   \<and> csvkit_read_row (parser_on csvkit_config_default [LF])
       = (Inr \<lparr>row_fields = [[]], row_number = 1\<rparr>,
          (parser_on csvkit_config_default [])\<lparr>parser_row_number := 1\<rparr>)
   \<and> length (row_fields \<lparr>row_fields = [[]], row_number = 1\<rparr>) \<ge> 1"
    using end_of_input_signal [where p = "parser_on csvkit_config_default []"]
      end_of_input_signal [where p = "parser_on csvkit_config_default ''a''"]
      end_of_input_signal [where p = "parser_on csvkit_config_default [LF]"]
    by (simp add: parser_eval)
  have skip1: "csvkit_read_row
        (parser_on (csvkit_config_default\<lparr>skip_empty_rows := True\<rparr>) ('','' @ [LF, LF]))
       = (Inl CSVKIT_ERROR_EOF,
          (parser_on (csvkit_config_default\<lparr>skip_empty_rows := True\<rparr>) [])
            \<lparr>parser_row_number := 2\<rparr>)"
    using end_of_input_signal
      [where p = "parser_on (csvkit_config_default\<lparr>skip_empty_rows := True\<rparr>) ('','' @ [LF, LF])"]
      d1
    by (simp add: parser_on_def csvkit_open_string_def csvkit_close_def)
  have skip2: "fst (csvkit_read_row (parser_on (csvkit_config_default\<lparr>skip_empty_rows := True\<rparr>)
              ([LF] @ ''a,b'')))
       \<noteq> Inl CSVKIT_ERROR_EOF"
    using end_of_input_signal
      [where p = "parser_on (csvkit_config_default\<lparr>skip_empty_rows := True\<rparr>) ([LF] @ ''a,b'')"]
      d2
    by (simp add: parser_on_def csvkit_open_string_def csvkit_close_def)
  from first d1 d2 skip1 skip2 show ?thesis by blast
qed

subsection \<open>Strict mode\<close>

text \<open>
  C3 (as stated, refuted). In strict mode every call after the first row that decodes a row
  with a different field count would return a parse error. With \<open>skip_empty_rows\<close> also
  set, on the rows \<open>a,b,c\<close>, \<open>,\<close> and \<open>d,e,f\<close> the second call decodes the row of two empty
  fields, while three are expected, drops it as an empty row and returns the row
  \<open>d,e,f\<close> with \<^verbatim>\<open>CSVKIT_OK\<close>.
\<close>

theorem strict_mismatch_skipped_counterexample:
  "fst (csvkit_read_row
          (parser_on (csvkit_config_default\<lparr>skip_empty_rows := True, strict_mode := True\<rparr>)
             (''a,b,c'' @ [LF] @ '','' @ [LF] @ ''d,e,f'')))
     = Inr \<lparr>row_fields = [''a'', ''b'', ''c''], row_number = 1\<rparr>
   \<and> expected_field_count (snd (csvkit_read_row
          (parser_on (csvkit_config_default\<lparr>skip_empty_rows := True, strict_mode := True\<rparr>)
             (''a,b,c'' @ [LF] @ '','' @ [LF] @ ''d,e,f'')))) = 3
   \<and> parse_row_internal (csvkit_config_default\<lparr>skip_empty_rows := True, strict_mode := True\<rparr>)
        (source (snd (csvkit_read_row
          (parser_on (csvkit_config_default\<lparr>skip_empty_rows := True, strict_mode := True\<rparr>)
             (''a,b,c'' @ [LF] @ '','' @ [LF] @ ''d,e,f'')))))
     = (Inr [[], []], ''d,e,f'')
   \<and> fst (csvkit_read_row (snd (csvkit_read_row
          (parser_on (csvkit_config_default\<lparr>skip_empty_rows := True, strict_mode := True\<rparr>)
             (''a,b,c'' @ [LF] @ '','' @ [LF] @ ''d,e,f'')))))
     = Inr \<lparr>row_fields = [''d'', ''e'', ''f''], row_number = 3\<rparr>"
  by (simp add: parser_eval)

text \<open>
  C3 (amended). Opening a source leaves the expected field count unset (zero). In strict
  mode the first row that \<^verbatim>\<open>csvkit_read_row\<close> yields establishes the expected field
  count, which no later call changes; every later row yielded has that field count; and
  every later call in which the first row decoded that the empty-row filter does not drop
  (the first row decoded, when \<open>skip_empty_rows\<close> is off) has a different field count
  returns a parse error and no row, the row being consumed, while the rows already
  returned stay as they were returned: the results of earlier calls do not depend on later
  calls. On the rows \<open>a,b,c\<close> and \<open>a,b\<close> the first call returns the row \<open>a,b,c\<close> and the
  second the parse error.
\<close>

theorem strict_mode_field_count:
  "expected_field_count (csvkit_open_string q data) = 0
   \<and> (strict_mode (config p) \<longrightarrow>
     (\<forall>row p'. csvkit_read_row p = (Inr row, p') \<longrightarrow>
        (if expected_field_count p = 0
         then expected_field_count p' = length (row_fields row) \<and> expected_field_count p' \<noteq> 0
         else length (row_fields row) = expected_field_count p
              \<and> expected_field_count p' = expected_field_count p))
     \<and> (\<forall>e p'. csvkit_read_row p = (Inl e, p') \<longrightarrow>
          expected_field_count p' = expected_field_count p)
     \<and> (\<forall>flds src.
          source_type p \<noteq> SOURCE_NONE \<and> expected_field_count p \<noteq> 0
          \<and> parse_row_internal (config p) (source p) = (Inr flds, src)
          \<and> length flds \<noteq> expected_field_count p
          \<and> \<not> (skip_empty_rows (config p) \<and> all_fields_empty flds)
          \<longrightarrow> csvkit_read_row p =
                (Inl CSVKIT_ERROR_PARSE,
                 p\<lparr>source := src, parser_row_number := parser_row_number p + 1,
                   error_msg := Some ''Field count mismatch in strict mode''\<rparr>))
     \<and> (\<forall>k s flds s'.
          source_type p \<noteq> SOURCE_NONE \<and> expected_field_count p \<noteq> 0
          \<and> dropped_rows (config p) (source p) = (k, s)
          \<and> parse_row_internal (config p) s = (Inr flds, s')
          \<longrightarrow> csvkit_read_row p =
                (if length flds \<noteq> expected_field_count p
                 then (Inl CSVKIT_ERROR_PARSE,
                       p\<lparr>source := s', parser_row_number := parser_row_number p + k + 1,
                         error_msg := Some ''Field count mismatch in strict mode''\<rparr>)
                 else (Inr \<lparr>row_fields = flds, row_number = parser_row_number p + k + 1\<rparr>,
                       p\<lparr>source := s', parser_row_number := parser_row_number p + k + 1\<rparr>)))
     \<and> (\<forall>k s flds s'.
          source_type p \<noteq> SOURCE_NONE \<and> expected_field_count p = 0
          \<and> dropped_rows (config p) (source p) = (k, s)
          \<and> parse_row_internal (config p) s = (Inr flds, s')
          \<longrightarrow> csvkit_read_row p =
                (Inr \<lparr>row_fields = flds, row_number = parser_row_number p + k + 1\<rparr>,
                 p\<lparr>source := s', parser_row_number := parser_row_number p + k + 1,
                   expected_field_count := length flds\<rparr>))
     \<and> (\<forall>k s e s'.
          source_type p \<noteq> SOURCE_NONE
          \<and> dropped_rows (config p) (source p) = (k, s)
          \<and> parse_row_internal (config p) s = (Inl e, s')
          \<longrightarrow> fst (csvkit_read_row p) = Inl e))
   \<and> (i \<le> j \<longrightarrow> take i (read_calls j p) = read_calls i p)
   \<and> csvkit_read_row
        (parser_on (csvkit_config_default\<lparr>strict_mode := True\<rparr>) (''a,b,c'' @ [LF] @ ''a,b''))
     = (Inr \<lparr>row_fields = [''a'', ''b'', ''c''], row_number = 1\<rparr>,
        (parser_on (csvkit_config_default\<lparr>strict_mode := True\<rparr>) ''a,b'')
          \<lparr>parser_row_number := 1, expected_field_count := 3\<rparr>)
   \<and> csvkit_read_row
        ((parser_on (csvkit_config_default\<lparr>strict_mode := True\<rparr>) ''a,b'')
          \<lparr>parser_row_number := 1, expected_field_count := 3\<rparr>)
     = (Inl CSVKIT_ERROR_PARSE,
        (parser_on (csvkit_config_default\<lparr>strict_mode := True\<rparr>) [])
          \<lparr>parser_row_number := 2, expected_field_count := 3,
            error_msg := Some ''Field count mismatch in strict mode''\<rparr>)
   \<and> read_calls 2
        (parser_on (csvkit_config_default\<lparr>strict_mode := True\<rparr>) (''a,b,c'' @ [LF] @ ''a,b''))
     = [Inr \<lparr>row_fields = [''a'', ''b'', ''c''], row_number = 1\<rparr>, Inl CSVKIT_ERROR_PARSE]"
proof -
  have a: "strict_mode (config p) \<Longrightarrow> csvkit_read_row p = (Inr row, p') \<Longrightarrow>
        (if expected_field_count p = 0
         then expected_field_count p' = length (row_fields row) \<and> expected_field_count p' \<noteq> 0
         else length (row_fields row) = expected_field_count p
              \<and> expected_field_count p' = expected_field_count p)" for row p'
    using read_row_strict [of p "Inr row" p'] by (simp split: if_splits)
  have b: "strict_mode (config p) \<Longrightarrow> csvkit_read_row p = (Inl e, p') \<Longrightarrow>
        expected_field_count p' = expected_field_count p" for e p'
    using read_row_strict [of p "Inl e" p'] by simp
  have c: "strict_mode (config p) \<Longrightarrow> source_type p \<noteq> SOURCE_NONE \<Longrightarrow>
        expected_field_count p \<noteq> 0 \<Longrightarrow>
        parse_row_internal (config p) (source p) = (Inr flds, src) \<Longrightarrow>
        length flds \<noteq> expected_field_count p \<Longrightarrow>
        \<not> (skip_empty_rows (config p) \<and> all_fields_empty flds) \<Longrightarrow>
        csvkit_read_row p =
                (Inl CSVKIT_ERROR_PARSE,
                 p\<lparr>source := src, parser_row_number := parser_row_number p + 1,
                   error_msg := Some ''Field count mismatch in strict mode''\<rparr>)" for flds src
    by (auto simp: read_row_unfold_row)
  have d: "strict_mode (config p) \<Longrightarrow> source_type p \<noteq> SOURCE_NONE \<Longrightarrow>
        expected_field_count p \<noteq> 0 \<Longrightarrow>
        dropped_rows (config p) (source p) = (k, s) \<Longrightarrow>
        parse_row_internal (config p) s = (Inr flds, s') \<Longrightarrow>
        csvkit_read_row p =
                (if length flds \<noteq> expected_field_count p
                 then (Inl CSVKIT_ERROR_PARSE,
                       p\<lparr>source := s', parser_row_number := parser_row_number p + k + 1,
                         error_msg := Some ''Field count mismatch in strict mode''\<rparr>)
                 else (Inr \<lparr>row_fields = flds, row_number = parser_row_number p + k + 1\<rparr>,
                       p\<lparr>source := s', parser_row_number := parser_row_number p + k + 1\<rparr>))"
    for k s flds s'
    by (simp add: read_row_result_row)
  have e: "strict_mode (config p) \<Longrightarrow> source_type p \<noteq> SOURCE_NONE \<Longrightarrow>
        expected_field_count p = 0 \<Longrightarrow>
        dropped_rows (config p) (source p) = (k, s) \<Longrightarrow>
        parse_row_internal (config p) s = (Inr flds, s') \<Longrightarrow>
        csvkit_read_row p =
                (Inr \<lparr>row_fields = flds, row_number = parser_row_number p + k + 1\<rparr>,
                 p\<lparr>source := s', parser_row_number := parser_row_number p + k + 1,
                   expected_field_count := length flds\<rparr>)" for k s flds s'
    by (simp add: read_row_result_row)
  have f: "source_type p \<noteq> SOURCE_NONE \<Longrightarrow>
        dropped_rows (config p) (source p) = (k, s) \<Longrightarrow>
        parse_row_internal (config p) s = (Inl e, s') \<Longrightarrow>
        fst (csvkit_read_row p) = Inl e" for k s e s'
    by (simp add: read_row_result_error)
  have g: "i \<le> j \<Longrightarrow> take i (read_calls j p) = read_calls i p"
    by (rule read_calls_prefix)
  have h1: "csvkit_read_row
        (parser_on (csvkit_config_default\<lparr>strict_mode := True\<rparr>) (''a,b,c'' @ [LF] @ ''a,b''))
     = (Inr \<lparr>row_fields = [''a'', ''b'', ''c''], row_number = 1\<rparr>,
        (parser_on (csvkit_config_default\<lparr>strict_mode := True\<rparr>) ''a,b'')
          \<lparr>parser_row_number := 1, expected_field_count := 3\<rparr>)"
    by (simp add: parser_eval)
  have h2: "csvkit_read_row
        ((parser_on (csvkit_config_default\<lparr>strict_mode := True\<rparr>) ''a,b'')
          \<lparr>parser_row_number := 1, expected_field_count := 3\<rparr>)
     = (Inl CSVKIT_ERROR_PARSE,
        (parser_on (csvkit_config_default\<lparr>strict_mode := True\<rparr>) [])
          \<lparr>parser_row_number := 2, expected_field_count := 3,
            error_msg := Some ''Field count mismatch in strict mode''\<rparr>)"
    by (simp add: parser_eval)
  have h3: "read_calls 2
        (parser_on (csvkit_config_default\<lparr>strict_mode := True\<rparr>) (''a,b,c'' @ [LF] @ ''a,b''))
     = [Inr \<lparr>row_fields = [''a'', ''b'', ''c''], row_number = 1\<rparr>, Inl CSVKIT_ERROR_PARSE]"
    by (simp add: parser_eval numeral_2_eq_2)
  have o: "expected_field_count (csvkit_open_string q data) = 0"
    by (simp add: csvkit_open_string_def)
  from o a b c d e f g h1 h2 h3 show ?thesis by blast
qed

theorem strict_mode_field_count_witness:
  "strict_mode (config (parser_on (csvkit_config_default\<lparr>strict_mode := True\<rparr>) (''a,b,c'' @ [LF] @ ''a,b'')))
   \<and> expected_field_count (parser_on (csvkit_config_default\<lparr>strict_mode := True\<rparr>) (''a,b,c'' @ [LF] @ ''a,b'')) = 0
   \<and> expected_field_count (snd (csvkit_read_row
        (parser_on (csvkit_config_default\<lparr>strict_mode := True\<rparr>) (''a,b,c'' @ [LF] @ ''a,b''))))
      = length [''a'', ''b'', ''c'']
   \<and> fst (csvkit_read_row (snd (csvkit_read_row
        (parser_on (csvkit_config_default\<lparr>strict_mode := True\<rparr>) (''a,b,c'' @ [LF] @ ''a,b'')))))
      = Inl CSVKIT_ERROR_PARSE
   \<and> snd (csvkit_read_row
        (parser_on (csvkit_config_default\<lparr>skip_empty_rows := True, strict_mode := True\<rparr>)
           (''a,b,c'' @ [LF, LF] @ ''d,e'' @ [LF])))
      = (parser_on (csvkit_config_default\<lparr>skip_empty_rows := True, strict_mode := True\<rparr>)
           ([LF] @ ''d,e'' @ [LF]))\<lparr>parser_row_number := 1, expected_field_count := 3\<rparr>
   \<and> dropped_rows (csvkit_config_default\<lparr>skip_empty_rows := True, strict_mode := True\<rparr>)
        ([LF] @ ''d,e'' @ [LF]) = (1, ''d,e'' @ [LF])
   \<and> csvkit_read_row
        ((parser_on (csvkit_config_default\<lparr>skip_empty_rows := True, strict_mode := True\<rparr>)
           ([LF] @ ''d,e'' @ [LF]))\<lparr>parser_row_number := 1, expected_field_count := 3\<rparr>)
      = (Inl CSVKIT_ERROR_PARSE,
         (parser_on (csvkit_config_default\<lparr>skip_empty_rows := True, strict_mode := True\<rparr>) [])
           \<lparr>parser_row_number := 3, expected_field_count := 3,
             error_msg := Some ''Field count mismatch in strict mode''\<rparr>)"
proof -
  have first: "strict_mode (config (parser_on (csvkit_config_default\<lparr>strict_mode := True\<rparr>) (''a,b,c'' @ [LF] @ ''a,b'')))
   \<and> expected_field_count (parser_on (csvkit_config_default\<lparr>strict_mode := True\<rparr>) (''a,b,c'' @ [LF] @ ''a,b'')) = 0
   \<and> expected_field_count (snd (csvkit_read_row
        (parser_on (csvkit_config_default\<lparr>strict_mode := True\<rparr>) (''a,b,c'' @ [LF] @ ''a,b''))))
      = length [''a'', ''b'', ''c'']
   \<and> fst (csvkit_read_row (snd (csvkit_read_row
        (parser_on (csvkit_config_default\<lparr>strict_mode := True\<rparr>) (''a,b,c'' @ [LF] @ ''a,b'')))))
      = Inl CSVKIT_ERROR_PARSE"
    using strict_mode_field_count
      [where p = "parser_on (csvkit_config_default\<lparr>strict_mode := True\<rparr>) (''a,b,c'' @ [LF] @ ''a,b'')"]
      strict_mode_field_count
      [where p = "(parser_on (csvkit_config_default\<lparr>strict_mode := True\<rparr>) ''a,b'')
            \<lparr>parser_row_number := 1, expected_field_count := 3\<rparr>"]
    by (simp add: parser_on_def csvkit_open_string_def csvkit_close_def)
  have call1: "snd (csvkit_read_row
        (parser_on (csvkit_config_default\<lparr>skip_empty_rows := True, strict_mode := True\<rparr>)
           (''a,b,c'' @ [LF, LF] @ ''d,e'' @ [LF])))
      = (parser_on (csvkit_config_default\<lparr>skip_empty_rows := True, strict_mode := True\<rparr>)
           ([LF] @ ''d,e'' @ [LF]))\<lparr>parser_row_number := 1, expected_field_count := 3\<rparr>"
    by (simp add: parser_eval)
  have dr: "dropped_rows (csvkit_config_default\<lparr>skip_empty_rows := True, strict_mode := True\<rparr>)
        ([LF] @ ''d,e'' @ [LF]) = (1, ''d,e'' @ [LF])"
    by (simp add: dropped_rows.simps parser_eval)
  have run: "parse_row_internal
        (csvkit_config_default\<lparr>skip_empty_rows := True, strict_mode := True\<rparr>) (''d,e'' @ [LF])
      = (Inr [''d'', ''e''], [])"
    by (simp add: parser_eval)
  have call2: "csvkit_read_row
        ((parser_on (csvkit_config_default\<lparr>skip_empty_rows := True, strict_mode := True\<rparr>)
           ([LF] @ ''d,e'' @ [LF]))\<lparr>parser_row_number := 1, expected_field_count := 3\<rparr>)
      = (Inl CSVKIT_ERROR_PARSE,
         (parser_on (csvkit_config_default\<lparr>skip_empty_rows := True, strict_mode := True\<rparr>) [])
           \<lparr>parser_row_number := 3, expected_field_count := 3,
             error_msg := Some ''Field count mismatch in strict mode''\<rparr>)"
    using strict_mode_field_count
      [where p = "(parser_on (csvkit_config_default\<lparr>skip_empty_rows := True, strict_mode := True\<rparr>)
           ([LF] @ ''d,e'' @ [LF]))\<lparr>parser_row_number := 1, expected_field_count := 3\<rparr>"]
      dr run
    by (simp add: parser_on_def csvkit_open_string_def csvkit_close_def)
  from first call1 dr call2 show ?thesis by blast
qed

subsection \<open>Row numbers\<close>

text \<open>
  C4 (as stated, refuted). The \<open>n\<close>-th row returned would carry the row number \<open>n\<close>. With
  \<open>skip_empty_rows\<close>, on the lines \<open>a\<close>, empty, \<open>b\<close> the second row returned is \<open>b\<close> with
  the row number 3. In strict mode, on the rows \<open>a,b\<close>, \<open>c\<close> and \<open>d,e\<close> the second row
  returned is \<open>d,e\<close> with the row number 3, the rejected row \<open>c\<close> having taken the number 2.
\<close>

theorem row_number_counts_skipped_counterexample:
  "fst (csvkit_read_row
          (parser_on (csvkit_config_default\<lparr>skip_empty_rows := True\<rparr>)
             (''a'' @ [LF, LF] @ ''b'' @ [LF])))
     = Inr \<lparr>row_fields = [''a''], row_number = 1\<rparr>
   \<and> fst (csvkit_read_row (snd (csvkit_read_row
          (parser_on (csvkit_config_default\<lparr>skip_empty_rows := True\<rparr>)
             (''a'' @ [LF, LF] @ ''b'' @ [LF])))))
     = Inr \<lparr>row_fields = [''b''], row_number = 3\<rparr>
   \<and> returned_rows (read_calls 3
          (parser_on (csvkit_config_default\<lparr>strict_mode := True\<rparr>)
             (''a,b'' @ [LF] @ ''c'' @ [LF] @ ''d,e'' @ [LF])))
     = [\<lparr>row_fields = [''a'', ''b''], row_number = 1\<rparr>,
        \<lparr>row_fields = [''d'', ''e''], row_number = 3\<rparr>]"
  by (simp add: parser_eval numeral_3_eq_3)

text \<open>
  C4 (amended). Every row returned by \<^verbatim>\<open>csvkit_read_row\<close> carries the value of the
  parser's row counter after the call. A call advances the counter by one for every row
  it decodes: for each row dropped by the empty-row filter and for the row decoded after
  them, whether it is returned or rejected by the field-count check of strict mode; a
  call that decodes no row after the dropped ones leaves it there, and no call decreases
  it. So the row numbers are at least 1 and strictly increase from one returned row to
  the next. For a parser with \<open>skip_empty_rows\<close> and \<open>strict_mode\<close> off, the \<open>n\<close>-th row
  returned after the source is opened has the row number \<open>n\<close>.
\<close>

theorem row_number_of_returned_rows:
  "(\<forall>row p'. csvkit_read_row p = (Inr row, p') \<longrightarrow>
      row_number row = parser_row_number p' \<and> parser_row_number p < row_number row)
   \<and> parser_row_number p \<le> parser_row_number (snd (csvkit_read_row p))
   \<and> (source_type p \<noteq> SOURCE_NONE \<longrightarrow>
        parser_row_number (snd (csvkit_read_row p))
          = parser_row_number p + fst (dropped_rows (config p) (source p))
            + (case fst (parse_row_internal (config p)
                           (snd (dropped_rows (config p) (source p)))) of
                 Inl e \<Rightarrow> 0 | Inr flds \<Rightarrow> 1))
   \<and> sorted_wrt (<) (map row_number (returned_rows (read_calls k p)))
   \<and> (\<forall>row \<in> set (returned_rows (read_calls k p)). parser_row_number p < row_number row)
   \<and> (\<not> skip_empty_rows (config p) \<and> \<not> strict_mode (config p) \<longrightarrow>
      (\<forall>n < length (returned_rows (read_calls k (csvkit_open_string p data))).
         row_number (returned_rows (read_calls k (csvkit_open_string p data)) ! n) = n + 1))"
proof -
  have a: "csvkit_read_row p = (Inr row, p') \<Longrightarrow>
      row_number row = parser_row_number p' \<and> parser_row_number p < row_number row" for row p'
    using read_row_number [of p "Inr row" p' row] by simp
  have m: "parser_row_number p \<le> parser_row_number (snd (csvkit_read_row p))"
    using read_row_counter_mono [of p "fst (csvkit_read_row p)" "snd (csvkit_read_row p)"]
    by simp
  have c: "source_type p \<noteq> SOURCE_NONE \<Longrightarrow>
        parser_row_number (snd (csvkit_read_row p))
          = parser_row_number p + fst (dropped_rows (config p) (source p))
            + (case fst (parse_row_internal (config p)
                           (snd (dropped_rows (config p) (source p)))) of
                 Inl e \<Rightarrow> 0 | Inr flds \<Rightarrow> 1)"
    by (rule read_row_counter)
  have s: "sorted_wrt (<) (map row_number (returned_rows (read_calls k p)))
      \<and> (\<forall>row \<in> set (returned_rows (read_calls k p)). parser_row_number p < row_number row)"
    by (rule read_calls_increasing)
  have b: "\<not> skip_empty_rows (config p) \<Longrightarrow> \<not> strict_mode (config p) \<Longrightarrow>
      n < length (returned_rows (read_calls k (csvkit_open_string p data))) \<Longrightarrow>
         row_number (returned_rows (read_calls k (csvkit_open_string p data)) ! n) = n + 1" for n
    using read_calls_numbers [of "csvkit_open_string p data" n k]
    by (simp add: csvkit_open_string_def csvkit_close_def)
  from a m c s b show ?thesis by blast
qed

theorem row_number_of_returned_rows_witness:
  "returned_rows (read_calls 3 (parser_on csvkit_config_default (''a'' @ [LF, LF] @ ''b'' @ [LF])))
     = [\<lparr>row_fields = [''a''], row_number = 1\<rparr>, \<lparr>row_fields = [[]], row_number = 2\<rparr>,
        \<lparr>row_fields = [''b''], row_number = 3\<rparr>]
   \<and> row_number (returned_rows (read_calls 3
        (parser_on csvkit_config_default (''a'' @ [LF, LF] @ ''b'' @ [LF]))) ! 2) = 2 + 1
   \<and> dropped_rows (csvkit_config_default\<lparr>skip_empty_rows := True\<rparr>) ([LF] @ ''b'' @ [LF])
       = (1, ''b'' @ [LF])
   \<and> parser_row_number (snd (csvkit_read_row
        ((parser_on (csvkit_config_default\<lparr>skip_empty_rows := True\<rparr>) ([LF] @ ''b'' @ [LF]))
           \<lparr>parser_row_number := 1\<rparr>))) = 1 + 1 + 1"
proof -
  have ev: "returned_rows (read_calls 3 (parser_on csvkit_config_default (''a'' @ [LF, LF] @ ''b'' @ [LF])))
     = [\<lparr>row_fields = [''a''], row_number = 1\<rparr>, \<lparr>row_fields = [[]], row_number = 2\<rparr>,
        \<lparr>row_fields = [''b''], row_number = 3\<rparr>]"
    by (simp add: parser_eval numeral_3_eq_3)
  from row_number_of_returned_rows
    [of "\<lparr>config = csvkit_config_default, source_type = SOURCE_NONE, source = [],
           parser_row_number = 0, error_msg = None, expected_field_count = 0\<rparr>"
      3 "''a'' @ [LF, LF] @ ''b'' @ [LF]"]
  have "\<forall>n < length (returned_rows (read_calls 3
            (parser_on csvkit_config_default (''a'' @ [LF, LF] @ ''b'' @ [LF])))).
         row_number (returned_rows (read_calls 3
            (parser_on csvkit_config_default (''a'' @ [LF, LF] @ ''b'' @ [LF]))) ! n) = n + 1"
    by (simp add: parser_on_def csvkit_config_default_def)
  then have "2 < length (returned_rows (read_calls 3
            (parser_on csvkit_config_default (''a'' @ [LF, LF] @ ''b'' @ [LF])))) \<longrightarrow>
         row_number (returned_rows (read_calls 3
            (parser_on csvkit_config_default (''a'' @ [LF, LF] @ ''b'' @ [LF]))) ! 2) = 2 + 1"
    by blast
  moreover have "2 < length (returned_rows (read_calls 3
            (parser_on csvkit_config_default (''a'' @ [LF, LF] @ ''b'' @ [LF]))))"
    unfolding ev by simp
  ultimately have nth: "row_number (returned_rows (read_calls 3
        (parser_on csvkit_config_default (''a'' @ [LF, LF] @ ''b'' @ [LF]))) ! 2) = 2 + 1"
    by blast
  have dr: "dropped_rows (csvkit_config_default\<lparr>skip_empty_rows := True\<rparr>) ([LF] @ ''b'' @ [LF])
       = (1, ''b'' @ [LF])"
    by (simp add: dropped_rows.simps parser_eval)
  have run: "parse_row_internal (csvkit_config_default\<lparr>skip_empty_rows := True\<rparr>) (''b'' @ [LF])
      = (Inr [''b''], [])"
    by (simp add: parser_eval)
  have cnt: "parser_row_number (snd (csvkit_read_row
        ((parser_on (csvkit_config_default\<lparr>skip_empty_rows := True\<rparr>) ([LF] @ ''b'' @ [LF]))
           \<lparr>parser_row_number := 1\<rparr>))) = 1 + 1 + 1"
    using row_number_of_returned_rows
      [where p = "(parser_on (csvkit_config_default\<lparr>skip_empty_rows := True\<rparr>)
                     ([LF] @ ''b'' @ [LF]))\<lparr>parser_row_number := 1\<rparr>"]
      dr run
    by (simp add: parser_on_def csvkit_open_string_def csvkit_close_def)
  from ev nth dr cnt show ?thesis by blast
qed

subsection \<open>Round trip\<close>

lemma isprint_not_control: "isprint c \<Longrightarrow> c \<noteq> NUL \<and> c \<noteq> LF \<and> c \<noteq> CR"
  by (auto simp: isprint_def)

lemma distinct_dialectD:
  assumes "distinct_dialect cfg"
  shows "delimiter cfg \<noteq> quote_char cfg" "escape_char cfg \<noteq> quote_char cfg"
    "escape_char cfg \<noteq> delimiter cfg"
    "delimiter cfg \<noteq> LF" "delimiter cfg \<noteq> CR" "quote_char cfg \<noteq> LF" "quote_char cfg \<noteq> CR"
    "escape_char cfg \<noteq> LF" "escape_char cfg \<noteq> CR"
  using assms by (auto simp: distinct_dialect_def parser_validate_config_def split: if_splits)

lemma ascii_read_eq:
  assumes "ascii_dialect cfg"
  shows "read_eq (Some c) (delimiter cfg) \<longleftrightarrow> c = delimiter cfg"
    "read_eq (Some c) (quote_char cfg) \<longleftrightarrow> c = quote_char cfg"
    "read_eq (Some c) (escape_char cfg) \<longleftrightarrow> c = escape_char cfg"
  using assms by (simp_all add: ascii_dialect_def read_eq_Some)

lemma step_plain:
  "c \<noteq> CR \<Longrightarrow> c \<noteq> delimiter cfg \<Longrightarrow> c \<noteq> LF \<Longrightarrow> c \<noteq> quote_char cfg \<Longrightarrow>
   parse_loop cfg buf False started quoted flds (c # src)
     = parse_loop cfg (buf @ [c]) False True quoted flds src"
  by (simp add: parse_loop.simps loop_body_def read_eq_Some)

lemma step_open_quote:
  "ascii_dialect cfg \<Longrightarrow> quote_char cfg \<noteq> CR \<Longrightarrow>
   parse_loop cfg buf False False quoted flds (quote_char cfg # src)
     = parse_loop cfg buf True True True flds src"
  by (simp add: parse_loop.simps loop_body_def ascii_read_eq)

lemma step_delimiter:
  "ascii_dialect cfg \<Longrightarrow> delimiter cfg \<noteq> CR \<Longrightarrow> delimiter cfg \<noteq> quote_char cfg \<Longrightarrow>
   parse_loop cfg buf False started quoted flds (delimiter cfg # src)
     = parse_loop cfg [] False False False (flds @ [field_value cfg quoted buf]) src"
  by (simp add: parse_loop.simps loop_body_def ascii_read_eq)

lemma step_line_feed:
  "delimiter cfg \<noteq> LF \<Longrightarrow> quote_char cfg \<noteq> LF \<Longrightarrow>
   parse_loop cfg buf False started quoted flds (LF # src)
     = (finish_row cfg buf False started quoted flds (Some LF), src)"
  by (simp add: parse_loop.simps loop_body_def read_eq_Some)

lemma step_quoted_char:
  "c \<noteq> escape_char cfg \<Longrightarrow> c \<noteq> quote_char cfg \<Longrightarrow>
   parse_loop cfg buf True started quoted flds (c # src)
     = parse_loop cfg (buf @ [c]) True True quoted flds src"
  by (simp add: parse_loop.simps loop_body_def read_eq_Some)

lemma step_escaped_quote:
  "ascii_dialect cfg \<Longrightarrow>
   parse_loop cfg buf True started quoted flds (escape_char cfg # quote_char cfg # src)
     = parse_loop cfg (buf @ [quote_char cfg]) True True quoted flds src"
  by (simp add: parse_loop.simps loop_body_def ascii_read_eq)

lemma step_close_quote:
  "ascii_dialect cfg \<Longrightarrow> escape_char cfg \<noteq> quote_char cfg \<Longrightarrow> t = delimiter cfg \<or> t = LF \<Longrightarrow>
   parse_loop cfg buf True started quoted flds (quote_char cfg # t # src)
     = parse_loop cfg buf False started quoted flds (t # src)"
  by (auto simp: parse_loop.simps [of _ _ True] loop_body_def ascii_read_eq)

lemma last_non_space_snoc:
  "\<not> isspace c \<Longrightarrow> last_non_space (ys @ [c]) i l = i + length ys"
  by (induction ys arbitrary: i l) simp_all

lemma trim_whitespace_inplace_id:
  assumes "f \<noteq> []" "\<not> isspace (hd f)" "\<not> isspace (last f)"
  shows "trim_whitespace_inplace f = f"
proof -
  from assms(1,2) have start: "dropWhile isspace f = f" by (cases f) simp_all
  from assms(1) have "f = butlast f @ [last f]" by simp
  then have "last_non_space f 0 0 = length (butlast f)"
    using last_non_space_snoc [OF assms(3), of "butlast f" 0 0] by simp
  with assms(1) have "last_non_space f 0 0 + 1 = length f" by simp
  with assms(1) start show ?thesis by (simp add: trim_whitespace_inplace_def Let_def)
qed

lemma string_duplicate_id: "NUL \<notin> set f \<Longrightarrow> string_duplicate f = f"
  by (auto simp: string_duplicate_def)

lemma field_value_ok:
  assumes "field_ok cfg f"
  shows "field_value cfg (field_needs_quotes cfg f) f = f"
proof -
  from assms have "NUL \<notin> set f" by (auto simp: field_ok_def dest: isprint_not_control)
  then have dup: "string_duplicate f = f" by (rule string_duplicate_id)
  show ?thesis
  proof (cases "trim_whitespace cfg \<and> \<not> field_needs_quotes cfg f \<and> f \<noteq> []")
    case True
    with assms have "trim_whitespace_inplace f = f"
      by (intro trim_whitespace_inplace_id) (simp_all add: field_ok_def)
    with dup show ?thesis by (simp add: field_value_def)
  next
    case False
    with dup show ?thesis by (auto simp: field_value_def trim_whitespace_inplace_def)
  qed
qed

lemma unquoted_chars_read:
  "\<forall>c \<in> set f. c \<noteq> delimiter cfg \<and> c \<noteq> quote_char cfg \<and> c \<noteq> LF \<and> c \<noteq> CR \<Longrightarrow>
   parse_loop cfg buf False started quoted flds (f @ rest)
     = parse_loop cfg (buf @ f) False (started \<or> f \<noteq> []) quoted flds rest"
proof (induction f arbitrary: buf started)
  case Nil
  then show ?case by simp
next
  case (Cons c f)
  then show ?case by (simp add: step_plain)
qed

lemma escaped_chars_Cons:
  "escaped_chars cfg (c # f)
     = (if c = quote_char cfg then escape_char cfg # quote_char cfg # escaped_chars cfg f
        else c # escaped_chars cfg f)"
  by (simp add: escaped_chars_def)

lemma step_escaped_other:
  "ascii_dialect cfg \<Longrightarrow> escape_char cfg \<noteq> quote_char cfg \<Longrightarrow>
   n \<noteq> quote_char cfg \<Longrightarrow> n \<noteq> escape_char cfg \<Longrightarrow>
   parse_loop cfg buf True started quoted flds (escape_char cfg # n # src)
     = parse_loop cfg (buf @ [escape_char cfg, n]) True True quoted flds src"
  by (simp add: parse_loop.simps loop_body_def ascii_read_eq)

lemma quoted_char_read:
  "ascii_dialect cfg \<Longrightarrow> c \<noteq> escape_char cfg \<Longrightarrow>
   parse_loop cfg buf True True quoted flds (escaped_chars cfg (c # f) @ rest)
     = parse_loop cfg (buf @ [c]) True True quoted flds (escaped_chars cfg f @ rest)"
  by (cases "c = quote_char cfg")
    (simp_all add: escaped_chars_Cons step_escaped_quote step_quoted_char)

lemma quoted_chars_read:
  "ascii_dialect cfg \<Longrightarrow> escape_char cfg \<noteq> quote_char cfg \<Longrightarrow> escapes_ok cfg f \<Longrightarrow>
   parse_loop cfg buf True True quoted flds (escaped_chars cfg f @ rest)
     = parse_loop cfg (buf @ f) True True quoted flds rest"
proof (induction cfg f arbitrary: buf rule: escapes_ok.induct)
  case (1 cfg)
  then show ?case by (simp add: escaped_chars_def)
next
  case (2 cfg c)
  then have "c \<noteq> escape_char cfg" by simp
  from quoted_char_read [OF "2.prems"(1) this, of buf quoted flds "[]" rest] show ?case
    by (simp add: escaped_chars_def)
next
  case (3 cfg c n cs)
  note ascii = "3.prems"(1) and ne = "3.prems"(2)
  show ?case
  proof (cases "c = escape_char cfg")
    case True
    with "3.prems" have n: "n \<noteq> quote_char cfg" "n \<noteq> escape_char cfg" and cs: "escapes_ok cfg cs"
      by simp_all
    have "parse_loop cfg buf True True quoted flds (escaped_chars cfg (c # n # cs) @ rest)
        = parse_loop cfg buf True True quoted flds
            (escape_char cfg # n # escaped_chars cfg cs @ rest)"
      using True n ne by (simp add: escaped_chars_Cons)
    also have "\<dots> = parse_loop cfg (buf @ [escape_char cfg, n]) True True quoted flds
            (escaped_chars cfg cs @ rest)"
      using ascii ne n by (rule step_escaped_other)
    also have "\<dots> = parse_loop cfg ((buf @ [escape_char cfg, n]) @ cs) True True quoted flds rest"
      using True ascii ne cs by (rule "3.IH"(1))
    finally show ?thesis using True by simp
  next
    case False
    with "3.prems" have rest_ok: "escapes_ok cfg (n # cs)" by simp
    have "parse_loop cfg buf True True quoted flds (escaped_chars cfg (c # n # cs) @ rest)
        = parse_loop cfg (buf @ [c]) True True quoted flds (escaped_chars cfg (n # cs) @ rest)"
      using ascii False by (rule quoted_char_read)
    also have "\<dots> = parse_loop cfg ((buf @ [c]) @ n # cs) True True quoted flds rest"
      using False ascii ne rest_ok by (rule "3.IH"(2))
    finally show ?thesis by simp
  qed
qed

lemma escapes_ok_without_escape: "escape_char cfg \<notin> set f \<Longrightarrow> escapes_ok cfg f"
  by (induction cfg f rule: escapes_ok.induct) auto

lemma field_read:
  assumes d: "distinct_dialect cfg" and ascii: "ascii_dialect cfg" and ok: "field_ok cfg f"
    and t: "t = delimiter cfg \<or> t = LF"
  shows "parse_loop cfg [] False False False flds (field_text cfg (Some f) @ t # rest)
     = parse_loop cfg f False (f \<noteq> [] \<or> field_needs_quotes cfg f) (field_needs_quotes cfg f)
         flds (t # rest)"
proof (cases "field_needs_quotes cfg f")
  case True
  with ok have noesc: "escapes_ok cfg f" by (simp add: field_ok_def)
  from distinct_dialectD [OF d] have eq: "escape_char cfg \<noteq> quote_char cfg" by simp
  from True have "parse_loop cfg [] False False False flds (field_text cfg (Some f) @ t # rest)
      = parse_loop cfg [] False False False flds
          (quote_char cfg # escaped_chars cfg f @ quote_char cfg # t # rest)"
    by (simp add: field_text_def)
  also have "\<dots> = parse_loop cfg [] True True True flds
          (escaped_chars cfg f @ quote_char cfg # t # rest)"
    using distinct_dialectD [OF d] ascii by (simp add: step_open_quote)
  also have "\<dots> = parse_loop cfg f True True True flds (quote_char cfg # t # rest)"
    using quoted_chars_read [OF ascii eq noesc, where buf = "[]"] by simp
  also have "\<dots> = parse_loop cfg f False True True flds (t # rest)"
    using ascii eq t by (rule step_close_quote)
  finally show ?thesis using True by simp
next
  case False
  then have plain: "\<forall>c \<in> set f. c \<noteq> delimiter cfg \<and> c \<noteq> quote_char cfg \<and> c \<noteq> LF \<and> c \<noteq> CR"
    by (auto simp: field_needs_quotes_def)
  from False have "field_text cfg (Some f) = f" by (simp add: field_text_def)
  with unquoted_chars_read [OF plain, of "[]" False False flds "t # rest"] False
  show ?thesis by simp
qed

lemma field_read_delimiter:
  assumes d: "distinct_dialect cfg" and ascii: "ascii_dialect cfg" and ok: "field_ok cfg f"
  shows "parse_loop cfg [] False False False flds (field_text cfg (Some f) @ delimiter cfg # rest)
     = parse_loop cfg [] False False False (flds @ [f]) rest"
  using field_read [OF d ascii ok, of "delimiter cfg" flds rest] distinct_dialectD [OF d]
    field_value_ok [OF ok] ascii
  by (simp add: step_delimiter)

lemma field_read_line_feed:
  assumes d: "distinct_dialect cfg" and ascii: "ascii_dialect cfg" and ok: "field_ok cfg f"
  shows "parse_loop cfg [] False False False flds (field_text cfg (Some f) @ LF # rest)
     = (Inr (flds @ [f]), rest)"
  using field_read [OF d ascii ok, of LF flds rest] distinct_dialectD [OF d]
    field_value_ok [OF ok]
  by (simp add: step_line_feed finish_row_def)

lemma fields_read:
  assumes d: "distinct_dialect cfg" and ascii: "ascii_dialect cfg"
  shows "fs \<noteq> [] \<Longrightarrow> \<forall>f \<in> set fs. field_ok cfg f \<Longrightarrow>
     parse_loop cfg [] False False False flds (fields_text cfg (map Some fs) @ LF # rest)
       = (Inr (flds @ fs), rest)"
proof (induction fs arbitrary: flds)
  case Nil
  then show ?case by simp
next
  case (Cons f fs)
  show ?case
  proof (cases fs)
    case Nil
    with Cons.prems show ?thesis by (simp add: field_read_line_feed [OF d ascii])
  next
    case (Cons g gs)
    with Cons.prems Cons.IH [of "flds @ [f]"] show ?thesis
      by (simp add: field_read_delimiter [OF d ascii])
  qed
qed

lemma row_read:
  assumes "distinct_dialect cfg" "ascii_dialect cfg" "fs \<noteq> []" "\<forall>f \<in> set fs. field_ok cfg f"
  shows "parse_row_internal cfg (row_text cfg (map Some fs) @ rest) = (Inr fs, rest)"
  using fields_read [OF assms, of "[]" rest] by (simp add: parse_row_internal_def row_text_def)

lemma write_rows_text:
  "wfile w = Some out \<Longrightarrow>
   write_rows w (map (map Some) rows) = Inr (w\<lparr>wfile := Some (out @ rows_text (wconfig w) rows)\<rparr>)"
proof (induction rows arbitrary: w out)
  case Nil
  then show ?case by (simp add: rows_text_def)
next
  case (Cons r rows)
  let ?w = "w\<lparr>wfile := Some (out @ row_text (wconfig w) (map Some r))\<rparr>"
  from Cons.prems have "csvkit_writer_write_row (Some w) (Some (map Some r)) = Inr ?w"
    by (simp add: csvkit_writer_write_row_def write_fields_eq row_text_def fputc_def)
  moreover have "write_rows ?w (map (map Some) rows)
      = Inr (?w\<lparr>wfile := Some ((out @ row_text (wconfig w) (map Some r))
                                  @ rows_text (wconfig ?w) rows)\<rparr>)"
    by (rule Cons.IH) simp
  ultimately show ?case by (simp add: rows_text_def)
qed

lemma rows_read:
  assumes d: "distinct_dialect cfg" and ascii: "ascii_dialect cfg"
  shows "config p = cfg \<Longrightarrow> source_type p \<noteq> SOURCE_NONE \<Longrightarrow>
     source p = rows_text cfg rows \<Longrightarrow>
     \<forall>r \<in> set rows. r \<noteq> [] \<and> (\<forall>f \<in> set r. field_ok cfg f) \<Longrightarrow>
     skip_empty_rows cfg \<longrightarrow> (\<forall>r \<in> set rows. \<not> all_fields_empty r) \<Longrightarrow>
     strict_mode cfg \<longrightarrow> (\<forall>r \<in> set rows. length r = n)
        \<and> (expected_field_count p = 0 \<or> expected_field_count p = n) \<Longrightarrow>
     map result_fields (read_calls (Suc (length rows)) p)
       = map Inr rows @ [Inl CSVKIT_ERROR_EOF]"
proof (induction rows arbitrary: p)
  case Nil
  then show ?case by (simp add: rows_text_def read_row_on_empty)
next
  case (Cons r rows)
  let ?rest = "rows_text cfg rows"
  let ?row = "\<lparr>row_fields = r, row_number = parser_row_number p + 1\<rparr>"
  from Cons.prems(4) have r: "r \<noteq> []" "\<forall>f \<in> set r. field_ok cfg f" by simp_all
  from Cons.prems(3) have src: "source p = row_text cfg (map Some r) @ ?rest"
    by (simp add: rows_text_def)
  from row_read [OF d ascii r, of ?rest] src Cons.prems(1)
  have run: "parse_row_internal (config p) (source p) = (Inr r, ?rest)" by simp
  from Cons.prems(5) Cons.prems(1) have keep: "\<not> (skip_empty_rows (config p) \<and> all_fields_empty r)"
    by simp
  from Cons.prems(6) Cons.prems(1)
  have cnt: "strict_mode (config p) \<longrightarrow>
      length r = n \<and> (expected_field_count p = 0 \<or> expected_field_count p = n)"
    by simp
  obtain p' where call: "csvkit_read_row p = (Inr ?row, p')"
    and p': "config p' = cfg" "source_type p' \<noteq> SOURCE_NONE" "source p' = ?rest"
      "strict_mode cfg \<longrightarrow> expected_field_count p' = 0 \<or> expected_field_count p' = n"
  proof (cases "strict_mode (config p) \<and> expected_field_count p = 0")
    case True
    with cnt Cons.prems(1,2) keep show ?thesis
      by (intro that [of "p\<lparr>source := ?rest, parser_row_number := parser_row_number p + 1,
            expected_field_count := length r\<rparr>"])
        (auto simp: read_row_unfold_row [OF Cons.prems(2) run])
  next
    case False
    with cnt Cons.prems(1,2) keep show ?thesis
      by (intro that [of "p\<lparr>source := ?rest, parser_row_number := parser_row_number p + 1\<rparr>"])
        (auto simp: read_row_unfold_row [OF Cons.prems(2) run])
  qed
  have "map result_fields (read_calls (Suc (length rows)) p')
       = map Inr rows @ [Inl CSVKIT_ERROR_EOF]"
    using Cons.prems(4,5,6) p' by (intro Cons.IH) simp_all
  with call show ?case by simp
qed

lemmas writer_eval =
  writer_on_def csvkit_writer_open_stream_def csvkit_writer_write_row_def fputc_def fputs_def

text \<open>
  C1 (as stated, refuted). Under a valid dialect with pairwise distinct delimiter, quote
  and escape characters (here the default one with the backslash as escape character),
  the row with the one printable field of two backslashes and a comma is written in quotes
  as it is and read back as one backslash and a comma: the writer puts the escape
  character only before quote characters, and the parser reads two escape characters
  inside quotes as one. The flags of the dialect and
  rows without fields break the round trip as well: under \<open>trim_whitespace\<close> the field
  \<open> a \<close> is read back as \<open>a\<close>; under \<open>skip_empty_rows\<close> the row of one empty field is not
  read back; under \<open>strict_mode\<close> the rows \<open>a,b\<close> and \<open>c\<close> are read back as one row and a
  parse error; and a row of no fields is read back as a row of one empty field. Under a
  dialect whose delimiter is the byte 0xE9, which no byte read equals in the parser, the row
  of the fields \<open>a\<close> and \<open>b\<close> is read back as a row of one field.
\<close>

theorem round_trip_counterexample:
  "distinct_dialect (csvkit_config_default\<lparr>escape_char := BACKSLASH\<rparr>)
   \<and> list_all isprint [BACKSLASH, BACKSLASH, CHR '','']
   \<and> write_rows (writer_on (csvkit_config_default\<lparr>escape_char := BACKSLASH\<rparr>) [])
        [[Some [BACKSLASH, BACKSLASH, CHR '','']]]
     = Inr ((writer_on (csvkit_config_default\<lparr>escape_char := BACKSLASH\<rparr>) [])
             \<lparr>wfile := Some [DQUOTE, BACKSLASH, BACKSLASH, CHR '','', DQUOTE, LF]\<rparr>)
   \<and> map result_fields
        (read_calls 2 (parser_on (csvkit_config_default\<lparr>escape_char := BACKSLASH\<rparr>)
           [DQUOTE, BACKSLASH, BACKSLASH, CHR '','', DQUOTE, LF]))
     = [Inr [[BACKSLASH, CHR '','']], Inl CSVKIT_ERROR_EOF]
   \<and> [[BACKSLASH, CHR '','']] \<noteq> [[BACKSLASH, BACKSLASH, CHR '','']]
   \<and> write_rows (writer_on (csvkit_config_default\<lparr>escape_char := BACKSLASH, trim_whitespace := True\<rparr>) [])
        [[Some '' a '']]
     = Inr ((writer_on (csvkit_config_default\<lparr>escape_char := BACKSLASH, trim_whitespace := True\<rparr>) [])
             \<lparr>wfile := Some ('' a '' @ [LF])\<rparr>)
   \<and> map result_fields
        (read_calls 2 (parser_on (csvkit_config_default\<lparr>escape_char := BACKSLASH, trim_whitespace := True\<rparr>)
           ('' a '' @ [LF])))
     = [Inr [''a''], Inl CSVKIT_ERROR_EOF]
   \<and> write_rows (writer_on (csvkit_config_default\<lparr>escape_char := BACKSLASH, skip_empty_rows := True\<rparr>) [])
        [[Some []]]
     = Inr ((writer_on (csvkit_config_default\<lparr>escape_char := BACKSLASH, skip_empty_rows := True\<rparr>) [])
             \<lparr>wfile := Some [LF]\<rparr>)
   \<and> map result_fields
        (read_calls 2 (parser_on (csvkit_config_default\<lparr>escape_char := BACKSLASH, skip_empty_rows := True\<rparr>)
           [LF]))
     = [Inl CSVKIT_ERROR_EOF, Inl CSVKIT_ERROR_EOF]
   \<and> write_rows (writer_on (csvkit_config_default\<lparr>escape_char := BACKSLASH, strict_mode := True\<rparr>) [])
        [[Some ''a'', Some ''b''], [Some ''c'']]
     = Inr ((writer_on (csvkit_config_default\<lparr>escape_char := BACKSLASH, strict_mode := True\<rparr>) [])
             \<lparr>wfile := Some (''a,b'' @ [LF] @ ''c'' @ [LF])\<rparr>)
   \<and> map result_fields
        (read_calls 3 (parser_on (csvkit_config_default\<lparr>escape_char := BACKSLASH, strict_mode := True\<rparr>)
           (''a,b'' @ [LF] @ ''c'' @ [LF])))
     = [Inr [''a'', ''b''], Inl CSVKIT_ERROR_PARSE, Inl CSVKIT_ERROR_EOF]
   \<and> write_rows (writer_on (csvkit_config_default\<lparr>escape_char := BACKSLASH\<rparr>) []) [[]]
     = Inr ((writer_on (csvkit_config_default\<lparr>escape_char := BACKSLASH\<rparr>) [])
             \<lparr>wfile := Some [LF]\<rparr>)
   \<and> map result_fields
        (read_calls 2 (parser_on (csvkit_config_default\<lparr>escape_char := BACKSLASH\<rparr>) [LF]))
     = [Inr [[]], Inl CSVKIT_ERROR_EOF]
   \<and> distinct_dialect (csvkit_config_default\<lparr>delimiter := CHR 0xE9, escape_char := BACKSLASH\<rparr>)
   \<and> write_rows
        (writer_on (csvkit_config_default\<lparr>delimiter := CHR 0xE9, escape_char := BACKSLASH\<rparr>) [])
        [[Some ''a'', Some ''b'']]
     = Inr ((writer_on (csvkit_config_default\<lparr>delimiter := CHR 0xE9, escape_char := BACKSLASH\<rparr>) [])
             \<lparr>wfile := Some [CHR ''a'', CHR 0xE9, CHR ''b'', LF]\<rparr>)
   \<and> map result_fields
        (read_calls 2
           (parser_on (csvkit_config_default\<lparr>delimiter := CHR 0xE9, escape_char := BACKSLASH\<rparr>)
              [CHR ''a'', CHR 0xE9, CHR ''b'', LF]))
     = [Inr [[CHR ''a'', CHR 0xE9, CHR ''b'']], Inl CSVKIT_ERROR_EOF]"
  by (simp add: parser_eval writer_eval distinct_dialect_def parser_validate_config_def
      isprint_def numeral_2_eq_2 numeral_3_eq_3)

text \<open>
  C1 (amended). For every valid dialect whose delimiter, quote character and escape
  character are pairwise distinct ASCII characters, and every sequence of rows of printable strings, each
  row with at least one field, such that in a field written in quotes every escape
  character is followed by a character other than the quote and the escape character, under \<open>trim_whitespace\<close> no field written without quotes starts or ends with
  whitespace, under \<open>skip_empty_rows\<close> no row consists of empty fields only, and under
  \<open>strict_mode\<close> all rows have the same number of fields: writing the rows with
  \<^verbatim>\<open>csvkit_writer_write_row\<close> succeeds, and reading the text written with
  \<^verbatim>\<open>csvkit_read_row\<close> under the same dialect returns rows with exactly the fields of the
  original rows, in order, and then the end of input.
\<close>

theorem write_then_read_round_trip:
  assumes "distinct_dialect cfg"
    and "ascii_dialect cfg"
    and "\<forall>r \<in> set rows. r \<noteq> [] \<and> (\<forall>f \<in> set r. field_ok cfg f)"
    and "skip_empty_rows cfg \<longrightarrow> (\<forall>r \<in> set rows. \<not> all_fields_empty r)"
    and "strict_mode cfg \<longrightarrow> (\<forall>r \<in> set rows. length r = length (hd rows))"
  shows "write_rows (writer_on cfg []) (map (map Some) rows)
           = Inr ((writer_on cfg [])\<lparr>wfile := Some (rows_text cfg rows)\<rparr>)
       \<and> map result_fields
           (read_calls (Suc (length rows)) (parser_on cfg (rows_text cfg rows)))
         = map Inr rows @ [Inl CSVKIT_ERROR_EOF]"
proof
  show "write_rows (writer_on cfg []) (map (map Some) rows)
           = Inr ((writer_on cfg [])\<lparr>wfile := Some (rows_text cfg rows)\<rparr>)"
    using write_rows_text [of "writer_on cfg []" "[]" rows]
    by (simp add: writer_on_def csvkit_writer_open_stream_def)
  show "map result_fields
           (read_calls (Suc (length rows)) (parser_on cfg (rows_text cfg rows)))
         = map Inr rows @ [Inl CSVKIT_ERROR_EOF]"
    using assms(3,4,5)
    by (intro rows_read [OF assms(1,2), where n = "length (hd rows)"])
      (simp_all add: parser_on_def csvkit_open_string_def csvkit_close_def)
qed


theorem write_then_read_round_trip_witness:
  "write_rows
     (writer_on (csvkit_config_default\<lparr>escape_char := BACKSLASH, trim_whitespace := True,
                   skip_empty_rows := True, strict_mode := True\<rparr>) [])
     [[Some ''a'', Some ''b,c''],
      [Some [CHR ''d'', DQUOTE, CHR ''e''], Some [CHR ''x'', BACKSLASH, CHR ''y'', CHR '','']]]
   = Inr ((writer_on (csvkit_config_default\<lparr>escape_char := BACKSLASH, trim_whitespace := True,
                   skip_empty_rows := True, strict_mode := True\<rparr>) [])
           \<lparr>wfile := Some (''a,'' @ [DQUOTE] @ ''b,c'' @ [DQUOTE, LF]
                            @ [DQUOTE, CHR ''d'', BACKSLASH, DQUOTE, CHR ''e'', DQUOTE, CHR '','']
                            @ [DQUOTE, CHR ''x'', BACKSLASH, CHR ''y'', CHR '','', DQUOTE, LF])\<rparr>)
   \<and> map result_fields
       (read_calls 3
         (parser_on (csvkit_config_default\<lparr>escape_char := BACKSLASH, trim_whitespace := True,
                   skip_empty_rows := True, strict_mode := True\<rparr>)
            (''a,'' @ [DQUOTE] @ ''b,c'' @ [DQUOTE, LF]
               @ [DQUOTE, CHR ''d'', BACKSLASH, DQUOTE, CHR ''e'', DQUOTE, CHR '','']
               @ [DQUOTE, CHR ''x'', BACKSLASH, CHR ''y'', CHR '','', DQUOTE, LF])))
     = [Inr [''a'', ''b,c''],
        Inr [[CHR ''d'', DQUOTE, CHR ''e''], [CHR ''x'', BACKSLASH, CHR ''y'', CHR '','']],
        Inl CSVKIT_ERROR_EOF]"
  using write_then_read_round_trip
    [of "csvkit_config_default\<lparr>escape_char := BACKSLASH, trim_whitespace := True,
                   skip_empty_rows := True, strict_mode := True\<rparr>"
      "[[''a'', ''b,c''],
        [[CHR ''d'', DQUOTE, CHR ''e''], [CHR ''x'', BACKSLASH, CHR ''y'', CHR '','']]]"]
  by (simp add: distinct_dialect_def ascii_dialect_def parser_validate_config_def field_ok_def
      isprint_def field_needs_quotes_def isspace_def csvkit_config_default_def rows_text_def
      row_text_def field_text_def escaped_chars_def numeral_3_eq_3)

subsection \<open>End of input after an escape character\<close>

lemma quoted_plain_chars_read:
  assumes "ascii_dialect cfg" "escape_char cfg \<noteq> quote_char cfg"
    "escape_char cfg \<notin> set body" "quote_char cfg \<notin> set body"
  shows "parse_loop cfg buf True True quoted flds (body @ rest)
     = parse_loop cfg (buf @ body) True True quoted flds rest"
proof -
  from assms(4) have "escaped_chars cfg body = body"
    by (induction body) (auto simp: escaped_chars_Cons escaped_chars_def)
  with quoted_chars_read [OF assms(1,2) escapes_ok_without_escape [OF assms(3)],
      of buf quoted flds rest]
  show ?thesis by simp
qed

text \<open>
  C5 (as stated, refuted). Inside a quoted field, an escape character followed by the end
  of input would end the row with what was accumulated and return it. With the backslash
  as escape character, on the input of a quote character, \<open>ab\<close> and a backslash the call returns
  \<^verbatim>\<open>CSVKIT_ERROR_PARSE\<close> and no row.
\<close>

theorem escape_then_end_of_input_counterexample:
  "fst (csvkit_read_row
          (parser_on (csvkit_config_default\<lparr>escape_char := BACKSLASH\<rparr>)
             ([DQUOTE] @ ''ab'' @ [BACKSLASH])))
     = Inl CSVKIT_ERROR_PARSE"
  by (simp add: parser_eval)

text \<open>
  C5 (amended). For a dialect of ASCII characters: when the escape character differs from
  the quote character and, inside a quoted field, the escape character is read and the end
  of input follows it, the loop
  stops reading and \<^verbatim>\<open>parse_row_internal\<close> returns \<^verbatim>\<open>CSVKIT_ERROR_PARSE\<close>, the quoted
  field being unclosed; \<^verbatim>\<open>csvkit_read_row\<close> on such a source (a quote character, ordinary
  characters and the escape character) returns the parse error with the message of an
  unclosed quoted field and no row.
\<close>

theorem escape_then_end_of_input:
  "ascii_dialect cfg \<Longrightarrow> escape_char cfg \<noteq> quote_char cfg \<Longrightarrow>
     loop_body cfg buf True started quoted flds (escape_char cfg) [] = Break (escape_char cfg) []
     \<and> parse_loop cfg buf True started quoted flds [escape_char cfg]
         = (Inl CSVKIT_ERROR_PARSE, [])
     \<and> (parser_validate_config (Some cfg) \<and> config p = cfg \<and> source_type p \<noteq> SOURCE_NONE
         \<and> source p = quote_char cfg # body @ [escape_char cfg]
         \<and> escape_char cfg \<notin> set body \<and> quote_char cfg \<notin> set body
        \<longrightarrow> csvkit_read_row p
             = (Inl CSVKIT_ERROR_PARSE,
                p\<lparr>source := [], error_msg := Some ''Unclosed quoted field''\<rparr>))"
proof (intro conjI impI)
  assume ascii: "ascii_dialect cfg" and ne: "escape_char cfg \<noteq> quote_char cfg"
  then have not_eof: "\<not> read_eq None (quote_char cfg)" "\<not> read_eq None (escape_char cfg)"
    by (auto simp: read_eq_None ascii_dialect_def)
  show stop: "loop_body cfg buf True started quoted flds (escape_char cfg) []
      = Break (escape_char cfg) []"
    using ascii not_eof by (simp add: loop_body_def ascii_read_eq)
  show err: "parse_loop cfg buf True started quoted flds [escape_char cfg]
      = (Inl CSVKIT_ERROR_PARSE, [])" for buf started quoted flds
    using ascii not_eof by (simp add: parse_loop.simps loop_body_def finish_row_def ascii_read_eq)
  assume a: "parser_validate_config (Some cfg) \<and> config p = cfg \<and> source_type p \<noteq> SOURCE_NONE
         \<and> source p = quote_char cfg # body @ [escape_char cfg]
         \<and> escape_char cfg \<notin> set body \<and> quote_char cfg \<notin> set body"
  then have q: "quote_char cfg \<noteq> CR"
    by (auto simp: parser_validate_config_def split: if_splits)
  have "parse_row_internal cfg (quote_char cfg # body @ [escape_char cfg])
      = parse_loop cfg [] True True True [] (body @ [escape_char cfg])"
    by (simp add: parse_row_internal_def step_open_quote [OF ascii q])
  also have "\<dots> = parse_loop cfg ([] @ body) True True True [] [escape_char cfg]"
    using a ne ascii by (intro quoted_plain_chars_read) simp_all
  also have "\<dots> = (Inl CSVKIT_ERROR_PARSE, [])"
    by (rule err)
  finally have "parse_row_internal (config p) (source p) = (Inl CSVKIT_ERROR_PARSE, [])"
    using a by simp
  with a show "csvkit_read_row p
             = (Inl CSVKIT_ERROR_PARSE,
                p\<lparr>source := [], error_msg := Some ''Unclosed quoted field''\<rparr>)"
    by (simp add: read_row_unfold_error)
qed

theorem escape_then_end_of_input_witness:
  "csvkit_read_row
     (parser_on (csvkit_config_default\<lparr>escape_char := BACKSLASH\<rparr>)
        ([DQUOTE] @ ''ab'' @ [BACKSLASH]))
   = (Inl CSVKIT_ERROR_PARSE,
      (parser_on (csvkit_config_default\<lparr>escape_char := BACKSLASH\<rparr>) [])
        \<lparr>error_msg := Some ''Unclosed quoted field''\<rparr>)"
  using escape_then_end_of_input
    [where cfg = "csvkit_config_default\<lparr>escape_char := BACKSLASH\<rparr>" and body = "''ab''"
      and p = "parser_on (csvkit_config_default\<lparr>escape_char := BACKSLASH\<rparr>)
                 ([DQUOTE] @ ''ab'' @ [BACKSLASH])"]
  by (simp add: parser_on_def csvkit_open_string_def csvkit_close_def csvkit_config_default_def
      parser_validate_config_def ascii_dialect_def)


text \<open>
  A quote character of 0x80 or above equals no byte read, so it opens no quoted field: with
  the quote character 0xAB and the backslash as escape character, the source of the byte
  0xAB, \<open>a\<close> and a backslash is one unquoted field, returned as a row.
\<close>

lemma non_ascii_quote_opens_no_field:
  "csvkit_read_row
     (parser_on (csvkit_config_default\<lparr>quote_char := CHR 0xAB, escape_char := BACKSLASH\<rparr>)
        [CHR 0xAB, CHR ''a'', BACKSLASH])
   = (Inr \<lparr>row_fields = [[CHR 0xAB, CHR ''a'', BACKSLASH]], row_number = 1\<rparr>,
      (parser_on (csvkit_config_default\<lparr>quote_char := CHR 0xAB, escape_char := BACKSLASH\<rparr>) [])
        \<lparr>parser_row_number := 1\<rparr>)"
  by (simp add: parser_eval)

text \<open>
  Under the default dialect, where the escape character is the quote character, the same
  path is taken by a closing quote at the end of input: the input \<open>"ab"\<close> without a line
  terminator gives \<^verbatim>\<open>CSVKIT_ERROR_PARSE\<close> and no row, \<^verbatim>\<open>in_quotes\<close> being still set when
  the loop is left, while the same input followed by a line feed gives the row with the
  field \<open>ab\<close>.
\<close>

theorem eof_after_escape_is_parse_error:
  "csvkit_read_row (parser_on csvkit_config_default ([DQUOTE] @ ''ab'' @ [DQUOTE]))
     = (Inl CSVKIT_ERROR_PARSE,
        (parser_on csvkit_config_default [])\<lparr>error_msg := Some ''Unclosed quoted field''\<rparr>)
   \<and> csvkit_read_row (parser_on csvkit_config_default ([DQUOTE] @ ''ab'' @ [DQUOTE, LF]))
     = (Inr \<lparr>row_fields = [''ab''], row_number = 1\<rparr>,
        (parser_on csvkit_config_default [])\<lparr>parser_row_number := 1\<rparr>)"
  by (simp add: parser_eval)


subsection \<open>Field access is total\<close>

text \<open>
  C10. \<^verbatim>\<open>csvkit_row_get_field\<close> returns the null pointer for a null row and for an index
  greater than or equal to the field count of the row; for every other index it returns the
  field stored at that index, so the array is read only inside its bounds.
\<close>

theorem row_get_field_total:
  "csvkit_row_get_field None i = None
   \<and> (i \<ge> csvkit_row_field_count (Some r) \<longrightarrow> csvkit_row_get_field (Some r) i = None)
   \<and> (i < csvkit_row_field_count (Some r) \<longrightarrow>
        i < length (row_fields r) \<and> csvkit_row_get_field (Some r) i = Some (row_fields r ! i))"
  by (simp add: csvkit_row_get_field_def csvkit_row_field_count_def)

theorem row_get_field_total_witness:
  "csvkit_row_get_field (Some \<lparr>row_fields = [''a'', ''b''], row_number = 1\<rparr>) 2 = None
   \<and> csvkit_row_get_field (Some \<lparr>row_fields = [''a'', ''b''], row_number = 1\<rparr>) 1 = Some ''b''"
  using row_get_field_total [of 2 "\<lparr>row_fields = [''a'', ''b''], row_number = 1\<rparr>"]
    row_get_field_total [of 1 "\<lparr>row_fields = [''a'', ''b''], row_number = 1\<rparr>"]
  by (simp add: csvkit_row_field_count_def)

end
